theory Spec2Isabelle
  imports Main "HOL-Library.Char_ord" "HOL-Library.List_Lexorder" "HOL-Library.AList"
    "HOL-Library.Multiset" "HOL-Library.Sublist"
begin

section \<open>JavaScript values\<close>

text \<open>
  The values that travel through the event store and the plugin registry are JSON values:
  request bodies, descriptor files and the compound columns of the events table.
  Numbers are the integers (fractions and exponents are outside the model; \<open>JNum n\<close>
  is a number of JavaScript when \<open>n\<close> is a safe integer, which \<open>wf_json\<close> below
  requires), strings are sequences of 8-bit characters, and a nested object lists its
  properties in enumeration order.  A top-level object (an event, a descriptor, a request
  body) is a map from property names to values; a property that is absent reads as
  \<open>None\<close>, the \<^verbatim>\<open>undefined\<close> of the source.
\<close>

datatype json =
    JNull
  | JBool bool
  | JNum int
  | JStr string
  | JArr "json list"
  | JObj "(string \<times> json) list"

type_synonym obj = "string \<rightharpoonup> json"

text \<open>Truthiness, as \<^verbatim>\<open>if (x)\<close>, \<^verbatim>\<open>x && y\<close> and \<^verbatim>\<open>x || y\<close> test it.\<close>

fun truthy :: "json option \<Rightarrow> bool" where
  "truthy None = False"
| "truthy (Some JNull) = False"
| "truthy (Some (JBool b)) = b"
| "truthy (Some (JNum n)) = (n \<noteq> 0)"
| "truthy (Some (JStr s)) = (s \<noteq> [])"
| "truthy (Some (JArr xs)) = True"
| "truthy (Some (JObj kvs)) = True"

text \<open>\<^verbatim>\<open>a || d\<close> where \<open>d\<close> is a literal.\<close>

definition or_default :: "json option \<Rightarrow> json \<Rightarrow> json" where
  "or_default a d = (case a of None \<Rightarrow> d | Some v \<Rightarrow> if truthy (Some v) then v else d)"

text \<open>
  How a call can end without a result.  Every constructor but two is an exception that
  the caller can catch (a rejected promise).  \<open>UncaughtSyntaxError\<close> is the
  \<^verbatim>\<open>SyntaxError\<close> that \<^verbatim>\<open>JSON.parse\<close> throws inside a callback of the database
  driver: nothing catches it there, so the promise of the operation never settles.
  \<open>Unmodelled\<close> marks a statement whose parameters are outside the model (see
  \<open>insert_row\<close>).
\<close>

datatype error =
    InvalidEvent
  | EventNotFound string
  | SqliteConstraint
  | SyntaxError
  | UncaughtSyntaxError
  | Unmodelled
  | TypeError
  | InvalidPattern
  | ReadFailed
  | FileExists
  | PluginFailed string
  | SpawnFailed string

section \<open>Decimal numerals\<close>

definition digit_char :: "nat \<Rightarrow> char" where
  "digit_char d = char_of (of_char (CHR ''0'') + d)"

fun show_nat :: "nat \<Rightarrow> string" where
  "show_nat n = (if n < 10 then [digit_char n] else show_nat (n div 10) @ [digit_char (n mod 10)])"

declare show_nat.simps [simp del]

definition show_int :: "int \<Rightarrow> string" where
  "show_int i = (if i < 0 then CHR ''-'' # show_nat (nat (- i)) else show_nat (nat i))"

section \<open>JSON.stringify and JSON.parse\<close>

text \<open>
  The two built-ins the event store uses on its compound columns.  \<open>stringify\<close> is the
  compact form (no indentation argument): no white space, strings in double quotes with
  the escapes of the standard.
\<close>

definition hex_char :: "nat \<Rightarrow> char" where
  "hex_char d = (if d < 10 then char_of (48 + d) else char_of (87 + d))"

definition escape_char :: "char \<Rightarrow> string" where
  "escape_char c =
     (if c = CHR 0x22 then [CHR 0x5C, CHR 0x22]
      else if c = CHR 0x5C then [CHR 0x5C, CHR 0x5C]
      else if c = CHR 0x08 then [CHR 0x5C, CHR ''b'']
      else if c = CHR 0x09 then [CHR 0x5C, CHR ''t'']
      else if c = CHR 0x0A then [CHR 0x5C, CHR ''n'']
      else if c = CHR 0x0C then [CHR 0x5C, CHR ''f'']
      else if c = CHR 0x0D then [CHR 0x5C, CHR ''r'']
      else if (of_char c :: nat) < 32
      then [CHR 0x5C, CHR ''u'', CHR ''0'', CHR ''0'',
            hex_char (of_char c div 16), hex_char (of_char c mod 16)]
      else [c])"

definition quote :: "string \<Rightarrow> string" where
  "quote s = CHR 0x22 # concat (map escape_char s) @ [CHR 0x22]"

fun stringify :: "json \<Rightarrow> string"
  and stringify_elems :: "json list \<Rightarrow> string"
  and stringify_members :: "(string \<times> json) list \<Rightarrow> string" where
  "stringify JNull = ''null''"
| "stringify (JBool b) = (if b then ''true'' else ''false'')"
| "stringify (JNum n) = show_int n"
| "stringify (JStr s) = quote s"
| "stringify (JArr xs) = CHR ''['' # stringify_elems xs @ '']''"
| "stringify (JObj kvs) = CHR ''{'' # stringify_members kvs @ ''}''"
| "stringify_elems [] = []"
| "stringify_elems [x] = stringify x"
| "stringify_elems (x # y # ys) = stringify x @ CHR '','' # stringify_elems (y # ys)"
| "stringify_members [] = []"
| "stringify_members [(k, v)] = quote k @ CHR '':'' # stringify v"
| "stringify_members ((k, v) # kv # kvs) =
     quote k @ CHR '':'' # stringify v @ CHR '','' # stringify_members (kv # kvs)"

text \<open>
  \<open>json_parse\<close> follows the JSON grammar: white space between tokens, the literals, strings
  with every escape, arrays and objects.  A number with a fraction or an exponent and a
  \<^verbatim>\<open>\u\<close> escape above \<^verbatim>\<open>\u00ff\<close> denote values outside the model and are rejected
  here.  \<open>None\<close> is the \<^verbatim>\<open>SyntaxError\<close> of the source.  The recursion is bounded by
  the length of the text, which no nesting can exceed.
\<close>

definition is_ws :: "char \<Rightarrow> bool" where
  "is_ws c = (c = CHR '' '' \<or> c = CHR 0x09 \<or> c = CHR 0x0A \<or> c = CHR 0x0D)"

definition is_digit :: "char \<Rightarrow> bool" where
  "is_digit c = (48 \<le> (of_char c :: nat) \<and> (of_char c :: nat) \<le> 57)"

definition digit_val :: "char \<Rightarrow> nat" where
  "digit_val c = of_char c - 48"

fun parse_digits :: "nat \<Rightarrow> string \<Rightarrow> nat \<times> string" where
  "parse_digits acc [] = (acc, [])"
| "parse_digits acc (c # cs) =
     (if is_digit c then parse_digits (10 * acc + digit_val c) cs else (acc, c # cs))"

definition parse_nat_lit :: "string \<Rightarrow> (nat \<times> string) option" where
  "parse_nat_lit s =
     (case s of
        [] \<Rightarrow> None
      | c # cs \<Rightarrow>
          if c = CHR ''0'' then Some (0, cs)
          else if is_digit c then Some (parse_digits (digit_val c) cs)
          else None)"

definition number_end :: "string \<Rightarrow> bool" where
  "number_end r =
     (case r of
        [] \<Rightarrow> True
      | c # cs \<Rightarrow> \<not> is_digit c \<and> c \<noteq> CHR ''.'' \<and> c \<noteq> CHR ''e'' \<and> c \<noteq> CHR ''E'')"

definition parse_number :: "string \<Rightarrow> (json \<times> string) option" where
  "parse_number s =
     (case s of
        [] \<Rightarrow> None
      | c # cs \<Rightarrow>
          (case (if c = CHR ''-'' then parse_nat_lit cs else parse_nat_lit s) of
             None \<Rightarrow> None
           | Some (n, r) \<Rightarrow>
               if number_end r
               then Some (JNum (if c = CHR ''-'' then - int n else int n), r)
               else None))"

definition hex_val :: "char \<Rightarrow> nat option" where
  "hex_val c =
     (let n = (of_char c :: nat) in
      if 48 \<le> n \<and> n \<le> 57 then Some (n - 48)
      else if 97 \<le> n \<and> n \<le> 102 then Some (n - 87)
      else if 65 \<le> n \<and> n \<le> 70 then Some (n - 55)
      else None)"

definition hex4 :: "char \<Rightarrow> char \<Rightarrow> char \<Rightarrow> char \<Rightarrow> nat option" where
  "hex4 a b c d =
     (case (hex_val a, hex_val b, hex_val c, hex_val d) of
        (Some x, Some y, Some z, Some w) \<Rightarrow> Some (4096 * x + 256 * y + 16 * z + w)
      | _ \<Rightarrow> None)"

definition unescape :: "char \<Rightarrow> char option" where
  "unescape e =
     (if e = CHR 0x22 then Some (CHR 0x22)
      else if e = CHR 0x5C then Some (CHR 0x5C)
      else if e = CHR ''/'' then Some (CHR ''/'')
      else if e = CHR ''b'' then Some (CHR 0x08)
      else if e = CHR ''t'' then Some (CHR 0x09)
      else if e = CHR ''n'' then Some (CHR 0x0A)
      else if e = CHR ''f'' then Some (CHR 0x0C)
      else if e = CHR ''r'' then Some (CHR 0x0D)
      else None)"

definition cons_result :: "char \<Rightarrow> (string \<times> string) option \<Rightarrow> (string \<times> string) option" where
  "cons_result c res = (case res of None \<Rightarrow> None | Some (s, t) \<Rightarrow> Some (c # s, t))"

text \<open>The characters of a string after its opening quote, up to the closing quote.\<close>

fun parse_string_body :: "string \<Rightarrow> (string \<times> string) option" where
  "parse_string_body [] = None"
| "parse_string_body (c # cs) =
     (if c = CHR 0x22 then Some ([], cs)
      else if c = CHR 0x5C then
        (case cs of
           [] \<Rightarrow> None
         | e # r \<Rightarrow>
             if e = CHR ''u'' then
               (case r of
                  h1 # h2 # h3 # h4 # r' \<Rightarrow>
                    (case hex4 h1 h2 h3 h4 of
                       None \<Rightarrow> None
                     | Some n \<Rightarrow>
                         if n < 256 then cons_result (char_of n) (parse_string_body r') else None)
                | _ \<Rightarrow> None)
             else
               (case unescape e of
                  None \<Rightarrow> None
                | Some ch \<Rightarrow> cons_result ch (parse_string_body r)))
      else if (of_char c :: nat) < 32 then None
      else cons_result c (parse_string_body cs))"

definition strip_prefix :: "string \<Rightarrow> string \<Rightarrow> string option" where
  "strip_prefix p s = (if take (length p) s = p then Some (drop (length p) s) else None)"

text \<open>
  The enumeration order of the properties of an object: the keys that are array indices
  (the canonical numerals below \<open>2\<^sup>3\<^sup>2 - 1\<close>) come first, in ascending numeric order,
  then the other keys in the order of their creation.
\<close>

definition index_key :: "string \<Rightarrow> nat option" where
  "index_key k =
     (case parse_nat_lit k of
        Some (n, []) \<Rightarrow> if n < 4294967295 then Some n else None
      | _ \<Rightarrow> None)"

definition index_of :: "string \<times> json \<Rightarrow> nat" where
  "index_of kv = (case index_key (fst kv) of None \<Rightarrow> 0 | Some n \<Rightarrow> n)"

definition js_order :: "(string \<times> json) list \<Rightarrow> (string \<times> json) list" where
  "js_order kvs =
     sort_key index_of (filter (\<lambda>kv. index_key (fst kv) \<noteq> None) kvs)
     @ filter (\<lambda>kv. index_key (fst kv) = None) kvs"

text \<open>
  The object that the members of an object literal build: a property that occurs twice
  keeps its first position and takes its last value, and the properties are enumerated
  in the order above.
\<close>

definition normalise :: "(string \<times> json) list \<Rightarrow> (string \<times> json) list" where
  "normalise kvs = js_order (foldl (\<lambda>acc (k, v). AList.update k v acc) [] kvs)"

fun parse_value :: "nat \<Rightarrow> string \<Rightarrow> (json \<times> string) option"
  and parse_elems :: "nat \<Rightarrow> string \<Rightarrow> (json list \<times> string) option"
  and parse_members :: "nat \<Rightarrow> string \<Rightarrow> ((string \<times> json) list \<times> string) option" where
  "parse_value 0 s = None"
| "parse_value (Suc n) s =
     (case dropWhile is_ws s of
        [] \<Rightarrow> None
      | c # r \<Rightarrow>
          if c = CHR ''n'' then
            (case strip_prefix ''ull'' r of None \<Rightarrow> None | Some t \<Rightarrow> Some (JNull, t))
          else if c = CHR ''t'' then
            (case strip_prefix ''rue'' r of None \<Rightarrow> None | Some t \<Rightarrow> Some (JBool True, t))
          else if c = CHR ''f'' then
            (case strip_prefix ''alse'' r of None \<Rightarrow> None | Some t \<Rightarrow> Some (JBool False, t))
          else if c = CHR 0x22 then
            (case parse_string_body r of None \<Rightarrow> None | Some (str, t) \<Rightarrow> Some (JStr str, t))
          else if c = CHR ''['' then
            (case dropWhile is_ws r of
               [] \<Rightarrow> None
             | c' # r' \<Rightarrow>
                 if c' = CHR '']'' then Some (JArr [], r')
                 else (case parse_elems n r of None \<Rightarrow> None | Some (xs, t) \<Rightarrow> Some (JArr xs, t)))
          else if c = CHR ''{'' then
            (case dropWhile is_ws r of
               [] \<Rightarrow> None
             | c' # r' \<Rightarrow>
                 if c' = CHR ''}'' then Some (JObj [], r')
                 else (case parse_members n r of
                         None \<Rightarrow> None
                       | Some (kvs, t) \<Rightarrow> Some (JObj (normalise kvs), t)))
          else parse_number (c # r))"
| "parse_elems 0 s = None"
| "parse_elems (Suc n) s =
     (case parse_value n s of
        None \<Rightarrow> None
      | Some (v, r) \<Rightarrow>
          (case dropWhile is_ws r of
             [] \<Rightarrow> None
           | c # t \<Rightarrow>
               if c = CHR '','' then
                 (case parse_elems n t of None \<Rightarrow> None | Some (vs, u) \<Rightarrow> Some (v # vs, u))
               else if c = CHR '']'' then Some ([v], t)
               else None))"
| "parse_members 0 s = None"
| "parse_members (Suc n) s =
     (case dropWhile is_ws s of
        [] \<Rightarrow> None
      | c # r \<Rightarrow>
          if c = CHR 0x22 then
            (case parse_string_body r of
               None \<Rightarrow> None
             | Some (k, r1) \<Rightarrow>
                 (case dropWhile is_ws r1 of
                    [] \<Rightarrow> None
                  | c1 # r2 \<Rightarrow>
                      if c1 = CHR '':'' then
                        (case parse_value n r2 of
                           None \<Rightarrow> None
                         | Some (v, r3) \<Rightarrow>
                             (case dropWhile is_ws r3 of
                                [] \<Rightarrow> None
                              | c3 # r4 \<Rightarrow>
                                  if c3 = CHR '','' then
                                    (case parse_members n r4 of
                                       None \<Rightarrow> None
                                     | Some (kvs, u) \<Rightarrow> Some ((k, v) # kvs, u))
                                  else if c3 = CHR ''}'' then Some ([(k, v)], r4)
                                  else None))
                      else None))
          else None)"

definition json_parse :: "string \<Rightarrow> json option" where
  "json_parse s =
     (case parse_value (Suc (length s)) s of
        None \<Rightarrow> None
      | Some (v, r) \<Rightarrow> if dropWhile is_ws r = [] then Some v else None)"

text \<open>
  The values JavaScript can hold: a number is a safe integer (up to \<open>2\<^sup>5\<^sup>3 - 1\<close> in
  absolute value, where every integer is a number of its own and is written with all its
  digits), and an object has each property once, in enumeration order.
\<close>

fun wf_json :: "json \<Rightarrow> bool"
  and wf_elems :: "json list \<Rightarrow> bool"
  and wf_members :: "(string \<times> json) list \<Rightarrow> bool" where
  "wf_json JNull = True"
| "wf_json (JBool b) = True"
| "wf_json (JNum n) = (\<bar>n\<bar> \<le> 9007199254740991)"
| "wf_json (JStr s) = True"
| "wf_json (JArr xs) = wf_elems xs"
| "wf_json (JObj kvs) = (distinct (map fst kvs) \<and> js_order kvs = kvs \<and> wf_members kvs)"
| "wf_elems [] = True"
| "wf_elems (x # xs) = (wf_json x \<and> wf_elems xs)"
| "wf_members [] = True"
| "wf_members ((k, v) # kvs) = (wf_json v \<and> wf_members kvs)"

section \<open>The events table\<close>

text \<open>
  One row of the table \<^verbatim>\<open>events\<close>; a \<^verbatim>\<open>TEXT\<close> column holds a string or \<^verbatim>\<open>NULL\<close>,
  an \<^verbatim>\<open>INTEGER\<close> column an integer or \<^verbatim>\<open>NULL\<close>.  The table is the list of its rows
  in insertion order.
\<close>

record row =
  r_id :: "string option"
  r_timestamp :: "string option"
  r_source :: "string option"
  r_type :: "string option"
  r_title :: "string option"
  r_metadata :: "string option"
  r_linked_uris :: "string option"
  r_tags :: "string option"
  r_mood :: "int option"
  r_location :: "string option"
  r_duration :: "int option"
  r_created_at :: "string option"
  r_updated_at :: "string option"

text \<open>
  Binding a JavaScript value to a statement parameter: \<^verbatim>\<open>undefined\<close> and \<^verbatim>\<open>null\<close>
  bind \<^verbatim>\<open>NULL\<close>, a string binds text, a number binds an integer.  A value whose type is
  not the type of its column (where SQLite would apply the column's affinity, or the
  driver its own conversion) is outside the model: the statement is then reported as
  \<open>Unmodelled\<close> and writes nothing.
\<close>

fun text_ok :: "json option \<Rightarrow> bool" where
  "text_ok None = True"
| "text_ok (Some JNull) = True"
| "text_ok (Some (JStr s)) = True"
| "text_ok (Some v) = False"

fun int_ok :: "json option \<Rightarrow> bool" where
  "int_ok None = True"
| "int_ok (Some JNull) = True"
| "int_ok (Some (JNum n)) = True"
| "int_ok (Some v) = False"

fun to_text :: "json option \<Rightarrow> string option" where
  "to_text (Some (JStr s)) = Some s"
| "to_text v = None"

fun to_int :: "json option \<Rightarrow> int option" where
  "to_int (Some (JNum n)) = Some n"
| "to_int v = None"

definition of_text :: "string option \<Rightarrow> json" where
  "of_text c = (case c of None \<Rightarrow> JNull | Some s \<Rightarrow> JStr s)"

definition of_int_col :: "int option \<Rightarrow> json" where
  "of_int_col c = (case c of None \<Rightarrow> JNull | Some n \<Rightarrow> JNum n)"

definition text_columns :: "string list" where
  "text_columns = [''id'', ''timestamp'', ''source'', ''type'', ''title'', ''metadata'',
     ''linked_uris'', ''tags'', ''location'', ''created_at'', ''updated_at'']"

definition bindable :: "obj \<Rightarrow> bool" where
  "bindable e = (list_all (\<lambda>k. text_ok (e k)) text_columns \<and> int_ok (e ''mood'') \<and> int_ok (e ''duration''))"

definition bound_row :: "obj \<Rightarrow> row" where
  "bound_row e =
     \<lparr>r_id = to_text (e ''id''), r_timestamp = to_text (e ''timestamp''),
      r_source = to_text (e ''source''), r_type = to_text (e ''type''),
      r_title = to_text (e ''title''), r_metadata = to_text (e ''metadata''),
      r_linked_uris = to_text (e ''linked_uris''), r_tags = to_text (e ''tags''),
      r_mood = to_int (e ''mood''), r_location = to_text (e ''location''),
      r_duration = to_int (e ''duration''), r_created_at = to_text (e ''created_at''),
      r_updated_at = to_text (e ''updated_at'')\<rparr>"

text \<open>The \<^verbatim>\<open>NOT NULL\<close> columns.\<close>

definition not_null_ok :: "row \<Rightarrow> bool" where
  "not_null_ok r =
     (r_timestamp r \<noteq> None \<and> r_source r \<noteq> None \<and> r_type r \<noteq> None \<and> r_title r \<noteq> None
      \<and> r_created_at r \<noteq> None \<and> r_updated_at r \<noteq> None)"

text \<open>\<^verbatim>\<open>INSERT INTO events (...) VALUES (?, ..., ?)\<close>; \<^verbatim>\<open>id\<close> is the primary key.\<close>

definition insert_row :: "obj \<Rightarrow> row list \<Rightarrow> error + row list" where
  "insert_row e db =
     (if \<not> bindable e then Inl Unmodelled
      else if \<not> not_null_ok (bound_row e) then Inl SqliteConstraint
      else if r_id (bound_row e) \<noteq> None \<and> r_id (bound_row e) \<in> set (map r_id db)
      then Inl SqliteConstraint
      else Inr (db @ [bound_row e]))"

text \<open>
  \<^verbatim>\<open>UPDATE events SET timestamp = ?, ..., updated_at = ? WHERE id = ?\<close>: the statement
  names eleven columns; \<^verbatim>\<open>id\<close> and \<^verbatim>\<open>created_at\<close> are not among them.
\<close>

definition set_columns :: "obj \<Rightarrow> row \<Rightarrow> row" where
  "set_columns e r =
     r\<lparr>r_timestamp := to_text (e ''timestamp''), r_source := to_text (e ''source''),
       r_type := to_text (e ''type''), r_title := to_text (e ''title''),
       r_metadata := to_text (e ''metadata''), r_linked_uris := to_text (e ''linked_uris''),
       r_tags := to_text (e ''tags''), r_mood := to_int (e ''mood''),
       r_location := to_text (e ''location''), r_duration := to_int (e ''duration''),
       r_updated_at := to_text (e ''updated_at'')\<rparr>"

definition updated_text_columns :: "string list" where
  "updated_text_columns = [''timestamp'', ''source'', ''type'', ''title'', ''metadata'',
     ''linked_uris'', ''tags'', ''location'', ''updated_at'']"

definition bindable_update :: "obj \<Rightarrow> bool" where
  "bindable_update e =
     (list_all (\<lambda>k. text_ok (e k)) updated_text_columns \<and> int_ok (e ''mood'') \<and> int_ok (e ''duration''))"

definition update_row :: "string \<Rightarrow> obj \<Rightarrow> row list \<Rightarrow> error + row list" where
  "update_row ident e db =
     (if \<not> bindable_update e then Inl Unmodelled
      else if \<exists>r \<in> set db. r_id r = Some ident \<and> \<not> not_null_ok (set_columns e r)
      then Inl SqliteConstraint
      else Inr (map (\<lambda>r. if r_id r = Some ident then set_columns e r else r) db))"

text \<open>\<^verbatim>\<open>SELECT * FROM events WHERE id = ?\<close>, first row.\<close>

definition select_by_id :: "string \<Rightarrow> row list \<Rightarrow> row option" where
  "select_by_id ident db = find (\<lambda>r. r_id r = Some ident) db"

section \<open>The schema validator\<close>

text \<open>
  Modelled from the spec: the schema \<^verbatim>\<open>lifeos-protocol/lifeevent.schema.json\<close> that the
  constructor compiles belongs to another package and is not in the repository.  The
  operations below take the compiled validator as their parameter \<open>validate\<close>; this
  definition is the validator the specification describes: \<^verbatim>\<open>timestamp\<close> (a date-time,
  by the format check \<open>date_time\<close>), \<^verbatim>\<open>source\<close>, \<^verbatim>\<open>type\<close> and \<^verbatim>\<open>title\<close> are
  required strings; when present, \<^verbatim>\<open>mood\<close> is a number, \<^verbatim>\<open>tags\<close> and
  \<^verbatim>\<open>linked_uris\<close> are arrays of strings and \<^verbatim>\<open>metadata\<close> is an object.
\<close>

fun is_string :: "json \<Rightarrow> bool" where
  "is_string (JStr s) = True"
| "is_string v = False"

fun is_string_array :: "json \<Rightarrow> bool" where
  "is_string_array (JArr xs) = list_all is_string xs"
| "is_string_array v = False"

definition schema_validate :: "(string \<Rightarrow> bool) \<Rightarrow> obj \<Rightarrow> bool" where
  "schema_validate date_time e =
     ((case e ''timestamp'' of Some (JStr t) \<Rightarrow> date_time t | _ \<Rightarrow> False)
      \<and> (case e ''source'' of Some (JStr x) \<Rightarrow> True | _ \<Rightarrow> False)
      \<and> (case e ''type'' of Some (JStr x) \<Rightarrow> True | _ \<Rightarrow> False)
      \<and> (case e ''title'' of Some (JStr x) \<Rightarrow> True | _ \<Rightarrow> False)
      \<and> (case e ''mood'' of None \<Rightarrow> True | Some (JNum n) \<Rightarrow> True | _ \<Rightarrow> False)
      \<and> (case e ''tags'' of None \<Rightarrow> True | Some v \<Rightarrow> is_string_array v)
      \<and> (case e ''linked_uris'' of None \<Rightarrow> True | Some v \<Rightarrow> is_string_array v)
      \<and> (case e ''metadata'' of None \<Rightarrow> True | Some (JObj kvs) \<Rightarrow> True | _ \<Rightarrow> False))"

section \<open>EventManager (lib/eventManager.js)\<close>

text \<open>
  The serialised form of an event: the three compound fields as JSON text, with their
  defaults, and \<^verbatim>\<open>location\<close> as JSON text or \<^verbatim>\<open>null\<close>.
\<close>

definition serialize_location :: "json option \<Rightarrow> json" where
  "serialize_location l =
     (case l of None \<Rightarrow> JNull | Some v \<Rightarrow> if truthy (Some v) then JStr (stringify v) else JNull)"

definition serialize :: "obj \<Rightarrow> obj" where
  "serialize event =
     event ++
     [''metadata'' \<mapsto> JStr (stringify (or_default (event ''metadata'') (JObj []))),
      ''linked_uris'' \<mapsto> JStr (stringify (or_default (event ''linked_uris'') (JArr []))),
      ''tags'' \<mapsto> JStr (stringify (or_default (event ''tags'') (JArr []))),
      ''location'' \<mapsto> serialize_location (event ''location'')]"

text \<open>\<^verbatim>\<open>JSON.parse(x)\<close> of a property that holds text.\<close>

definition parse_field :: "json option \<Rightarrow> json option" where
  "parse_field x = (case x of Some (JStr t) \<Rightarrow> json_parse t | _ \<Rightarrow> None)"

text \<open>
  \<open>createEvent\<close>.  \<open>uuid\<close> is the value of \<^verbatim>\<open>uuidv4()\<close> and \<open>now\<close> the value of
  \<^verbatim>\<open>new Date().toISOString()\<close>.  The result pairs what the promise settles to with
  the table afterwards.  The compound fields are parsed back in the callback of the
  \<^verbatim>\<open>INSERT\<close>, after the row was written.
\<close>

definition createEvent ::
  "(obj \<Rightarrow> bool) \<Rightarrow> string \<Rightarrow> string \<Rightarrow> obj \<Rightarrow> row list \<Rightarrow> (error + obj) \<times> row list" where
  "createEvent validate uuid now eventData db =
     (if \<not> validate eventData then (Inl InvalidEvent, db)
      else
        (let event = eventData ++
               [''id'' \<mapsto> or_default (eventData ''id'') (JStr uuid),
                ''created_at'' \<mapsto> or_default (eventData ''created_at'') (JStr now),
                ''updated_at'' \<mapsto> JStr now];
             serializedEvent = serialize event
         in case insert_row serializedEvent db of
              Inl e \<Rightarrow> (Inl e, db)
            | Inr db' \<Rightarrow>
                (case (parse_field (serializedEvent ''metadata''),
                       parse_field (serializedEvent ''linked_uris''),
                       parse_field (serializedEvent ''tags''),
                       if truthy (serializedEvent ''location'')
                       then parse_field (serializedEvent ''location'') else Some JNull) of
                   (Some m, Some l, Some t, Some loc) \<Rightarrow>
                     (Inr (event ++ [''metadata'' \<mapsto> m, ''linked_uris'' \<mapsto> l,
                                     ''tags'' \<mapsto> t, ''location'' \<mapsto> loc]), db')
                 | _ \<Rightarrow> (Inl UncaughtSyntaxError, db'))))"

text \<open>The object the driver returns for a row (\<^verbatim>\<open>...row\<close>).\<close>

definition row_obj :: "row \<Rightarrow> obj" where
  "row_obj r =
     [''id'' \<mapsto> of_text (r_id r), ''timestamp'' \<mapsto> of_text (r_timestamp r),
      ''source'' \<mapsto> of_text (r_source r), ''type'' \<mapsto> of_text (r_type r),
      ''title'' \<mapsto> of_text (r_title r), ''metadata'' \<mapsto> of_text (r_metadata r),
      ''linked_uris'' \<mapsto> of_text (r_linked_uris r), ''tags'' \<mapsto> of_text (r_tags r),
      ''mood'' \<mapsto> of_int_col (r_mood r), ''location'' \<mapsto> of_text (r_location r),
      ''duration'' \<mapsto> of_int_col (r_duration r), ''created_at'' \<mapsto> of_text (r_created_at r),
      ''updated_at'' \<mapsto> of_text (r_updated_at r)]"

text \<open>\<^verbatim>\<open>JSON.parse(x || d)\<close> of a text column.\<close>

definition parse_column :: "string option \<Rightarrow> string \<Rightarrow> json option" where
  "parse_column c d = (case c of None \<Rightarrow> json_parse d | Some t \<Rightarrow> if t = [] then json_parse d else json_parse t)"

definition parse_location :: "string option \<Rightarrow> json option" where
  "parse_location c = (case c of None \<Rightarrow> Some JNull | Some t \<Rightarrow> if t = [] then Some JNull else json_parse t)"

text \<open>
  The parsing of the compound fields that every read path applies to a row, in the
  callback of the \<^verbatim>\<open>SELECT\<close>: a column that does not parse throws there.
\<close>

definition deserialize :: "row \<Rightarrow> error + obj" where
  "deserialize r =
     (case (parse_column (r_metadata r) ''{}'', parse_column (r_linked_uris r) ''[]'',
            parse_column (r_tags r) ''[]'', parse_location (r_location r)) of
        (Some m, Some l, Some t, Some loc) \<Rightarrow>
          Inr (row_obj r ++ [''metadata'' \<mapsto> m, ''linked_uris'' \<mapsto> l,
                            ''tags'' \<mapsto> t, ''location'' \<mapsto> loc])
      | _ \<Rightarrow> Inl UncaughtSyntaxError)"

text \<open>\<open>getEvent\<close>: \<open>Inr None\<close> is the \<^verbatim>\<open>null\<close> of an id that is not stored.\<close>

definition getEvent :: "string \<Rightarrow> row list \<Rightarrow> error + obj option" where
  "getEvent ident db =
     (case select_by_id ident db of
        None \<Rightarrow> Inr None
      | Some r \<Rightarrow> (case deserialize r of Inl e \<Rightarrow> Inl e | Inr ev \<Rightarrow> Inr (Some ev)))"

definition updateEvent ::
  "(obj \<Rightarrow> bool) \<Rightarrow> string \<Rightarrow> string \<Rightarrow> obj \<Rightarrow> row list \<Rightarrow> (error + obj) \<times> row list" where
  "updateEvent validate now ident updates db =
     (case getEvent ident db of
        Inl e \<Rightarrow> (Inl e, db)
      | Inr None \<Rightarrow> (Inl (EventNotFound ident), db)
      | Inr (Some event) \<Rightarrow>
          (let updatedEvent = event ++ updates ++ [''updated_at'' \<mapsto> JStr now] in
           if \<not> validate updatedEvent then (Inl InvalidEvent, db)
           else
             (case update_row ident (serialize updatedEvent) db of
                Inl e \<Rightarrow> (Inl e, db)
              | Inr db' \<Rightarrow> (Inr updatedEvent, db'))))"

text \<open>The total of \<open>getStats\<close> (\<^verbatim>\<open>SELECT COUNT(*) as total FROM events\<close>).\<close>

definition getStats_total :: "row list \<Rightarrow> nat" where
  "getStats_total db = length db"

subsection \<open>getEvents\<close>

text \<open>
  SQLite's \<^verbatim>\<open>LIKE\<close>: \<^verbatim>\<open>%\<close> matches any sequence of characters, \<^verbatim>\<open>_\<close> any one
  character, and the letters of ASCII match without regard to case.
\<close>

definition lower_ascii :: "char \<Rightarrow> char" where
  "lower_ascii c =
     (if 65 \<le> (of_char c :: nat) \<and> (of_char c :: nat) \<le> 90 then char_of (of_char c + (32 :: nat)) else c)"

fun sqlite_like :: "string \<Rightarrow> string \<Rightarrow> bool" where
  "sqlite_like [] t = (t = [])"
| "sqlite_like (p # ps) t =
     (if p = CHR ''%''
      then (sqlite_like ps t \<or> (case t of [] \<Rightarrow> False | c # cs \<Rightarrow> sqlite_like (p # ps) cs))
      else (case t of
              [] \<Rightarrow> False
            | c # cs \<Rightarrow> (p = CHR ''_'' \<or> lower_ascii p = lower_ascii c) \<and> sqlite_like ps cs))"

text \<open>
  The options of \<open>getEvents\<close>; an option that is \<open>None\<close> was not passed.  \<open>orderBy\<close>
  is a column and a direction (the source splices the text of the option into the
  statement; the model covers the orderings of this form).
\<close>

datatype column =
    Id | Timestamp | Source | Type | Title | Metadata | Linked_uris | Tags | Mood
  | Location | Duration | Created_at | Updated_at



















section \<open>Plugin registry and scheduler (src/server/routes/plugins.js)\<close>

text \<open>
  The plugin root \<^verbatim>\<open>./plugins\<close> is a list of named entries in \<^verbatim>\<open>readdir\<close> order.
  An entry is a plain file or a plugin directory; a plugin directory holds the descriptor
  file \<^verbatim>\<open>plugin.json\<close> and the names of its other files (all of them regular files
  that the server may write; an input or output error of the file system other than the
  ones named below is outside the model).  The descriptor file is
  modelled by what reading and parsing it gives: \<open>Absent\<close> when \<^verbatim>\<open>readFile\<close> fails,
  \<open>Corrupt\<close> when \<^verbatim>\<open>JSON.parse\<close> throws, \<open>Descriptor c\<close> when the text is the
  JSON object \<open>c\<close> (text that parses to a JSON value that is not an object is outside
  the model).
\<close>

datatype descriptor_file = Absent | Corrupt | Descriptor obj

record plugin_dir =
  plugin_json :: descriptor_file
  files :: "string set"

datatype entry = File | Dir plugin_dir

text \<open>
  A task of the cron library: the closure of \<open>startScheduledJob\<close> captures the plugin id
  and the descriptor; the task fires while it is running.  The library keeps every task it
  ever created; \<^verbatim>\<open>activeJobs\<close> is the module's own map from plugin id to job handle (the
  index of the task).
\<close>

record task =
  task_plugin :: string
  task_schedule :: string
  task_config :: obj
  task_running :: bool

record server =
  plugin_root :: "(string \<times> entry) list"
  cron_tasks :: "task list"
  activeJobs :: "string \<rightharpoonup> nat"

text \<open>
  The answer of a handler: a status with a body, or a status with an error message.
  \<open>OutsideModel\<close> marks a request whose effect on the file system the plugin root above
  cannot express.
\<close>

datatype 'a reply = Reply nat 'a | Failure nat string | OutsideModel

definition read_descriptor :: "(string \<times> entry) list \<Rightarrow> string \<Rightarrow> error + obj" where
  "read_descriptor root pluginId =
     (case map_of root pluginId of
        Some (Dir d) \<Rightarrow>
          (case plugin_json d of
             Descriptor config \<Rightarrow> Inr config
           | Corrupt \<Rightarrow> Inl SyntaxError
           | Absent \<Rightarrow> Inl ReadFailed)
      | _ \<Rightarrow> Inl ReadFailed)"

text \<open>\<^verbatim>\<open>fs.writeFile(configPath, JSON.stringify(config, null, 2))\<close>, called after a successful read.\<close>

definition write_descriptor :: "(string \<times> entry) list \<Rightarrow> string \<Rightarrow> obj \<Rightarrow> (string \<times> entry) list" where
  "write_descriptor root pluginId config =
     (case map_of root pluginId of
        Some (Dir d) \<Rightarrow> AList.update pluginId (Dir (d\<lparr>plugin_json := Descriptor config\<rparr>)) root
      | _ \<Rightarrow> root)"

definition job_stop :: "nat \<Rightarrow> task list \<Rightarrow> task list" where
  "job_stop job ts = (if job < length ts then ts[job := (ts ! job)\<lparr>task_running := False\<rparr>] else ts)"

definition stopScheduledJob :: "string \<Rightarrow> server \<Rightarrow> server" where
  "stopScheduledJob pluginId s =
     (case activeJobs s pluginId of
        None \<Rightarrow> s
      | Some job \<Rightarrow>
          s\<lparr>cron_tasks := job_stop job (cron_tasks s),
            activeJobs := (activeJobs s)(pluginId := None)\<rparr>)"

text \<open>
  \<^verbatim>\<open>cron.schedule(expression, fn)\<close> of the node-cron library, which is not part of the
  repository: it throws when the expression is not a string or is not a pattern the
  library accepts (the parameter \<open>cron_valid\<close>), and otherwise creates a running task.
\<close>

definition cron_schedule ::
  "(string \<Rightarrow> bool) \<Rightarrow> json option \<Rightarrow> string \<Rightarrow> obj \<Rightarrow> task list \<Rightarrow> error + (nat \<times> task list)" where
  "cron_schedule cron_valid expression pluginId config ts =
     (case expression of
        Some (JStr e) \<Rightarrow>
          if cron_valid e
          then Inr (length ts,
                    ts @ [\<lparr>task_plugin = pluginId, task_schedule = e,
                           task_config = config, task_running = True\<rparr>])
          else Inl InvalidPattern
      | _ \<Rightarrow> Inl TypeError)"

text \<open>The first component is the exception that escapes, if any.\<close>

definition startScheduledJob ::
  "(string \<Rightarrow> bool) \<Rightarrow> string \<Rightarrow> obj \<Rightarrow> server \<Rightarrow> error option \<times> server" where
  "startScheduledJob cron_valid pluginId config s =
     (let s1 = stopScheduledJob pluginId s in
      if truthy (config ''schedule'') \<and> truthy (config ''enabled'')
      then (case cron_schedule cron_valid (config ''schedule'') pluginId config (cron_tasks s1) of
              Inl e \<Rightarrow> (Some e, s1)
            | Inr (job, ts) \<Rightarrow>
                (None, s1\<lparr>cron_tasks := ts, activeJobs := (activeJobs s1)(pluginId \<mapsto> job)\<rparr>))
      else (None, s1))"

text \<open>The triggers of a plugin that fire: the running tasks created for its id.\<close>

definition active_triggers :: "server \<Rightarrow> string \<Rightarrow> task list" where
  "active_triggers s pluginId =
     filter (\<lambda>t. task_plugin t = pluginId \<and> task_running t) (cron_tasks s)"

text \<open>\<^verbatim>\<open>POST /api/plugins/:id/enable\<close>\<close>

definition enable_plugin :: "(string \<Rightarrow> bool) \<Rightarrow> string \<Rightarrow> server \<Rightarrow> obj reply \<times> server" where
  "enable_plugin cron_valid pluginId s =
     (case read_descriptor (plugin_root s) pluginId of
        Inl e \<Rightarrow> (Failure 500 ''Error enabling plugin'', s)
      | Inr config0 \<Rightarrow>
          (let config = config0(''enabled'' \<mapsto> JBool True);
               s1 = s\<lparr>plugin_root := write_descriptor (plugin_root s) pluginId config\<rparr>;
               (thrown, s2) =
                 (if truthy (config ''schedule'') \<and> truthy (config ''enabled'')
                  then startScheduledJob cron_valid pluginId config s1
                  else (None, s1))
           in case thrown of
                Some e \<Rightarrow> (Failure 500 ''Error enabling plugin'', s2)
              | None \<Rightarrow>
                  (Reply 200 [''success'' \<mapsto> JBool True, ''plugin'' \<mapsto> JStr pluginId,
                              ''enabled'' \<mapsto> JBool True], s2)))"

text \<open>\<^verbatim>\<open>POST /api/plugins/:id/disable\<close>\<close>

definition disable_plugin :: "string \<Rightarrow> server \<Rightarrow> obj reply \<times> server" where
  "disable_plugin pluginId s =
     (case read_descriptor (plugin_root s) pluginId of
        Inl e \<Rightarrow> (Failure 500 ''Error disabling plugin'', s)
      | Inr config0 \<Rightarrow>
          (let config = config0(''enabled'' \<mapsto> JBool False);
               s1 = s\<lparr>plugin_root := write_descriptor (plugin_root s) pluginId config\<rparr>;
               s2 = stopScheduledJob pluginId s1
           in (Reply 200 [''success'' \<mapsto> JBool True, ''plugin'' \<mapsto> JStr pluginId,
                          ''enabled'' \<mapsto> JBool False], s2)))"

text \<open>
  \<^verbatim>\<open>PUT /api/plugins/:id/config\<close>; \<open>updates\<close> is the request body, and
  \<^verbatim>\<open>Object.assign(config, updates)\<close> is the map override.  The reply is
  \<^verbatim>\<open>{ success: true, plugin: pluginId, config }\<close> with the merged descriptor.
\<close>

record config_reply =
  reply_success :: bool
  reply_plugin :: string
  reply_config :: obj

definition update_config ::
  "(string \<Rightarrow> bool) \<Rightarrow> string \<Rightarrow> obj \<Rightarrow> server \<Rightarrow> config_reply reply \<times> server" where
  "update_config cron_valid pluginId updates s =
     (case read_descriptor (plugin_root s) pluginId of
        Inl e \<Rightarrow> (Failure 500 ''Error updating plugin config'', s)
      | Inr config0 \<Rightarrow>
          (let config = config0 ++ updates;
               s1 = s\<lparr>plugin_root := write_descriptor (plugin_root s) pluginId config\<rparr>;
               (thrown, s2) =
                 (if truthy (config ''schedule'') \<and> truthy (config ''enabled'')
                  then startScheduledJob cron_valid pluginId config (stopScheduledJob pluginId s1)
                  else if \<not> truthy (config ''enabled'')
                  then (None, stopScheduledJob pluginId s1)
                  else (None, s1))
           in case thrown of
                Some e \<Rightarrow> (Failure 500 ''Error updating plugin config'', s2)
              | None \<Rightarrow>
                  (Reply 200 \<lparr>reply_success = True, reply_plugin = pluginId,
                              reply_config = config\<rparr>, s2)))"

text \<open>
  \<open>initializeScheduledJobs\<close>: one pass over the entries of the plugin root; a descriptor
  that cannot be read, or a job that cannot be started, is logged and the scan goes on.
\<close>

fun initializeScheduledJobs_loop ::
  "(string \<Rightarrow> bool) \<Rightarrow> (string \<times> entry) list \<Rightarrow> server \<Rightarrow> server" where
  "initializeScheduledJobs_loop cron_valid [] s = s"
| "initializeScheduledJobs_loop cron_valid ((file, e) # rest) s =
     (case e of
        File \<Rightarrow> initializeScheduledJobs_loop cron_valid rest s
      | Dir d \<Rightarrow>
          (case plugin_json d of
             Descriptor config \<Rightarrow>
               (if truthy (config ''enabled'') \<and> truthy (config ''schedule'')
                then initializeScheduledJobs_loop cron_valid rest
                       (snd (startScheduledJob cron_valid file config s))
                else initializeScheduledJobs_loop cron_valid rest s)
           | _ \<Rightarrow> initializeScheduledJobs_loop cron_valid rest s))"

definition initializeScheduledJobs :: "(string \<Rightarrow> bool) \<Rightarrow> server \<Rightarrow> server" where
  "initializeScheduledJobs cron_valid s = initializeScheduledJobs_loop cron_valid (plugin_root s) s"

text \<open>The state of the module when it is loaded: no task, an empty \<^verbatim>\<open>activeJobs\<close>.\<close>

definition module_load :: "(string \<times> entry) list \<Rightarrow> server" where
  "module_load root = \<lparr>plugin_root = root, cron_tasks = [], activeJobs = Map.empty\<rparr>"

text \<open>The entry of one plugin in the replies of \<^verbatim>\<open>GET /api/plugins\<close> and \<^verbatim>\<open>GET /api/plugins/:id\<close>.\<close>

definition plugin_entry :: "string \<Rightarrow> obj \<Rightarrow> obj" where
  "plugin_entry file config =
     [''id'' \<mapsto> JStr file,
      ''name'' \<mapsto> or_default (config ''name'') (JStr file),
      ''description'' \<mapsto> or_default (config ''description'') (JStr ''''),
      ''version'' \<mapsto> or_default (config ''version'') (JStr ''1.0.0''),
      ''author'' \<mapsto> or_default (config ''author'') (JStr ''''),
      ''source'' \<mapsto> or_default (config ''source'') (JStr ''''),
      ''type'' \<mapsto> or_default (config ''type'') (JStr ''manual''),
      ''schedule'' \<mapsto> or_default (config ''schedule'') JNull,
      ''enabled'' \<mapsto> JBool (config ''enabled'' \<noteq> Some (JBool False)),
      ''lastRun'' \<mapsto> or_default (config ''lastRun'') JNull,
      ''config'' \<mapsto> or_default (config ''config'') (JObj [])]"

definition degraded_entry :: "string \<Rightarrow> obj" where
  "degraded_entry file =
     [''id'' \<mapsto> JStr file,
      ''name'' \<mapsto> JStr file,
      ''description'' \<mapsto> JStr ''Plugin configuration not found'',
      ''version'' \<mapsto> JStr ''1.0.0'',
      ''enabled'' \<mapsto> JBool False,
      ''error'' \<mapsto> JStr ''Invalid configuration'']"

text \<open>\<^verbatim>\<open>GET /api/plugins\<close>\<close>

fun list_entries :: "(string \<times> entry) list \<Rightarrow> obj list" where
  "list_entries [] = []"
| "list_entries ((file, e) # rest) =
     (case e of
        File \<Rightarrow> list_entries rest
      | Dir d \<Rightarrow>
          (case plugin_json d of
             Descriptor config \<Rightarrow> plugin_entry file config # list_entries rest
           | _ \<Rightarrow> degraded_entry file # list_entries rest))"

definition list_plugins :: "server \<Rightarrow> obj list reply" where
  "list_plugins s = Reply 200 (list_entries (plugin_root s))"

definition file_exists :: "plugin_dir \<Rightarrow> string \<Rightarrow> bool" where
  "file_exists d name = (name \<in> files d \<or> (name = ''plugin.json'' \<and> plugin_json d \<noteq> Absent))"

text \<open>\<^verbatim>\<open>GET /api/plugins/:id\<close>\<close>

definition get_plugin :: "string \<Rightarrow> server \<Rightarrow> obj reply" where
  "get_plugin pluginId s =
     (case map_of (plugin_root s) pluginId of
        None \<Rightarrow> Failure 404 ''Plugin not found''
      | Some File \<Rightarrow> Failure 404 ''Plugin not found''
      | Some (Dir d) \<Rightarrow>
          (case plugin_json d of
             Descriptor config \<Rightarrow>
               (case or_default (config ''main'') (JStr ''index.js'') of
                  JStr mainFile \<Rightarrow>
                    Reply 200 (plugin_entry pluginId config ++
                      [''hasMainFile'' \<mapsto> JBool (file_exists d mainFile),
                       ''mainFile'' \<mapsto> JStr mainFile])
                | _ \<Rightarrow> Failure 500 ''TypeError'')
           | _ \<Rightarrow> Failure 500 ''Error getting plugin''))"

text \<open>
  \<^verbatim>\<open>POST /api/plugins/install\<close>; \<open>source\<close> and \<open>name\<close> are the two properties of the
  request body, strings when present.  The handler joins the name to the plugin root
  (\<^verbatim>\<open>path.join(PLUGIN_DIR, name)\<close>).  A name that is one path segment (\<open>single_segment\<close>:
  no separator, no NUL, not \<^verbatim>\<open>.\<close> or \<^verbatim>\<open>..\<close>, and short enough to be a file name,
  at most 255 bytes when each character takes two) denotes the entry of that name in the
  plugin root; any other name denotes a path below or outside an entry, or no path at all,
  which the plugin root of the model does not describe, and the request is
  \<open>OutsideModel\<close>.
  \<^verbatim>\<open>fs.mkdir(pluginPath, { recursive: true })\<close> creates the directory, succeeds when
  it already exists and fails when a plain file has the name.
\<close>

definition single_segment :: "string \<Rightarrow> bool" where
  "single_segment name =
     (name \<noteq> [] \<and> length name \<le> 127
      \<and> CHR ''/'' \<notin> set name \<and> CHR 0x5C \<notin> set name \<and> CHR 0x00 \<notin> set name
      \<and> name \<noteq> ''.'' \<and> name \<noteq> ''..'')"

definition pluginConfig :: "string \<Rightarrow> string \<Rightarrow> obj" where
  "pluginConfig source name =
     [''name'' \<mapsto> JStr name,
      ''description'' \<mapsto> JStr (''Plugin installed from '' @ source),
      ''version'' \<mapsto> JStr ''1.0.0'',
      ''author'' \<mapsto> JStr ''LifeOS Core'',
      ''source'' \<mapsto> JStr source,
      ''type'' \<mapsto> JStr ''manual'',
      ''enabled'' \<mapsto> JBool False,
      ''config'' \<mapsto> JObj []]"

definition mkdir_recursive :: "(string \<times> entry) list \<Rightarrow> string \<Rightarrow> error + (string \<times> entry) list" where
  "mkdir_recursive root name =
     (case map_of root name of
        None \<Rightarrow> Inr (AList.update name (Dir \<lparr>plugin_json = Absent, files = {}\<rparr>) root)
      | Some (Dir d) \<Rightarrow> Inr root
      | Some File \<Rightarrow> Inl FileExists)"

definition write_file :: "(string \<times> entry) list \<Rightarrow> string \<Rightarrow> string \<Rightarrow> (string \<times> entry) list" where
  "write_file root pluginId name =
     (case map_of root pluginId of
        Some (Dir d) \<Rightarrow> AList.update pluginId (Dir (d\<lparr>files := insert name (files d)\<rparr>)) root
      | _ \<Rightarrow> root)"

definition install_plugin :: "string option \<Rightarrow> string option \<Rightarrow> server \<Rightarrow> obj reply \<times> server" where
  "install_plugin source name s =
     (case (source, name) of
        (Some src, Some nm) \<Rightarrow>
          if src = [] \<or> nm = [] then (Failure 400 ''Source and name are required'', s)
          else if \<not> single_segment nm then (OutsideModel, s)
          else
            (case mkdir_recursive (plugin_root s) nm of
               Inl e \<Rightarrow> (Failure 500 ''Error installing plugin'', s)
             | Inr root1 \<Rightarrow>
                 (let root2 = write_descriptor root1 nm (pluginConfig src nm);
                      root3 = write_file root2 nm ''index.js''
                  in (Reply 201 [''success'' \<mapsto> JBool True, ''plugin'' \<mapsto> JStr nm,
                                 ''message'' \<mapsto> JStr ''Plugin installed successfully''],
                      s\<lparr>plugin_root := root3\<rparr>)))
      | _ \<Rightarrow> (Failure 400 ''Source and name are required'', s))"







section \<open>Invariants and example states\<close>

text \<open>
  The invariant of the scheduler: every running task is the job that \<^verbatim>\<open>activeJobs\<close>
  holds for the plugin the task was created for.
\<close>

definition sched_inv :: "server \<Rightarrow> bool" where
  "sched_inv s = (\<forall>j < length (cron_tasks s).
      task_running (cron_tasks s ! j) \<longrightarrow> activeJobs s (task_plugin (cron_tasks s ! j)) = Some j)"

text \<open>A plugin root with one scheduled, enabled plugin, and a cron library that accepts every pattern.\<close>

definition hourly :: obj where
  "hourly = [''name'' \<mapsto> JStr ''Weather'', ''schedule'' \<mapsto> JStr ''0 * * * *'', ''enabled'' \<mapsto> JBool True]"

definition weather_root :: "(string \<times> entry) list" where
  "weather_root = [(''weather'', Dir \<lparr>plugin_json = Descriptor hourly, files = {''index.js''}\<rparr>)]"

definition always_valid :: "string \<Rightarrow> bool" where
  "always_valid e = True"

definition weather_running :: server where
  "weather_running = initializeScheduledJobs always_valid (module_load weather_root)"

text \<open>A descriptor written by hand, without the \<^verbatim>\<open>enabled\<close> key.\<close>

definition handwritten :: obj where
  "handwritten = [''name'' \<mapsto> JStr ''Notes'', ''schedule'' \<mapsto> JStr ''*/5 * * * *'']"

definition notes_server :: server where
  "notes_server = module_load [(''notes'', Dir \<lparr>plugin_json = Descriptor handwritten, files = {}\<rparr>)]"

text \<open>
  A text column written by the store holds the serialisation of a truthy value: parsing
  it succeeds and stringifying the result gives the text back.
\<close>

definition col_ok :: "string option \<Rightarrow> bool" where
  "col_ok c =
     (case c of
        None \<Rightarrow> False
      | Some t \<Rightarrow>
          (case json_parse t of None \<Rightarrow> False | Some v \<Rightarrow> truthy (Some v) \<and> stringify v = t))"

definition row_ok :: "row \<Rightarrow> bool" where
  "row_ok r =
     (col_ok (r_metadata r) \<and> col_ok (r_linked_uris r) \<and> col_ok (r_tags r)
      \<and> (r_location r = None \<or> col_ok (r_location r)))"

text \<open>
  The compound fields of a payload hold JavaScript values of the model: their numbers are
  safe integers.
\<close>

definition compound_wf :: "obj \<Rightarrow> bool" where
  "compound_wf e =
     (wf_json (or_default (e ''metadata'') (JObj [])) \<and> wf_json (or_default (e ''linked_uris'') (JArr []))
      \<and> wf_json (or_default (e ''tags'') (JArr [])) \<and> wf_json (or_default (e ''location'') JNull))"







text \<open>Example payloads, and a format check that accepts every string.\<close>

definition any_date :: "string \<Rightarrow> bool" where
  "any_date t = True"


definition untitled_payload :: obj where
  "untitled_payload =
     [''timestamp'' \<mapsto> JStr ''2024-01-01T00:00:00Z'', ''source'' \<mapsto> JStr ''test'',
      ''type'' \<mapsto> JStr ''x.y'']"

definition gym_payload :: obj where
  "gym_payload =
     [''timestamp'' \<mapsto> JStr ''2024-03-05T18:30:00Z'', ''source'' \<mapsto> JStr ''manual'',
      ''type'' \<mapsto> JStr ''fitness.workout'', ''title'' \<mapsto> JStr ''Training'',
      ''metadata'' \<mapsto> JObj [(''reps'', JNum 12)], ''tags'' \<mapsto> JArr [JStr ''gymnastics''],
      ''mood'' \<mapsto> JNum 7]"

text \<open>The table after the first example event was created, and its only row.\<close>

definition gym_store :: "row list" where
  "gym_store = snd (createEvent (schema_validate any_date) ''e1'' ''2024-03-05T19:00:00.000Z'' gym_payload [])"

definition gym_row :: row where
  \<open>gym_row =
     \<lparr>r_id = Some ''e1'', r_timestamp = Some ''2024-03-05T18:30:00Z'', r_source = Some ''manual'',
      r_type = Some ''fitness.workout'', r_title = Some ''Training'',
      r_metadata = Some ''{"reps":12}'', r_linked_uris = Some ''[]'',
      r_tags = Some ''["gymnastics"]'', r_mood = Some 7, r_location = None,
      r_duration = None, r_created_at = Some ''2024-03-05T19:00:00.000Z'',
      r_updated_at = Some ''2024-03-05T19:00:00.000Z''\<rparr>\<close>





text \<open>
  What a pattern of \<^verbatim>\<open>LIKE\<close> matches, said without the matching procedure: the empty
  pattern matches the empty text; \<^verbatim>\<open>%\<close> followed by a pattern matches any run of
  characters followed by a text the rest matches; any other character followed by a
  pattern matches one character followed by a text the rest matches, where \<^verbatim>\<open>_\<close>
  stands for every character and another character for itself up to the case of the
  letters of ASCII.
\<close>

inductive like_matches :: "string \<Rightarrow> string \<Rightarrow> bool" where
  empty: "like_matches [] []"
| run: "like_matches ps t \<Longrightarrow> like_matches (CHR ''%'' # ps) (u @ t)"
| one: "p \<noteq> CHR ''%'' \<Longrightarrow> p = CHR ''_'' \<or> lower_ascii p = lower_ascii c \<Longrightarrow>
        like_matches ps t \<Longrightarrow> like_matches (p # ps) (c # t)"



section \<open>Parsing what was stringified\<close>

lemma digit_char_props:
  "d < 10 \<Longrightarrow> is_digit (digit_char d) \<and> digit_val (digit_char d) = d \<and> (digit_char d = CHR ''0'' \<longleftrightarrow> d = 0)"
proof -
  assume d: "d < 10"
  have o: "(of_char (digit_char d) :: nat) = 48 + d"
    using d by (simp add: digit_char_def)
  have "digit_char d = CHR ''0'' \<longleftrightarrow> (of_char (digit_char d) :: nat) = of_char (CHR ''0'')"
    by (metis of_char_eq_iff)
  with o d show ?thesis by (simp add: is_digit_def digit_val_def)
qed

lemma parse_digits_show_nat:
  "parse_digits acc (show_nat n @ rest) = parse_digits (acc * 10 ^ length (show_nat n) + n) rest"
proof (induction n arbitrary: acc rest rule: show_nat.induct)
  case (1 n)
  show ?case
  proof (cases "n < 10")
    case True
    then show ?thesis using digit_char_props [of n] by (simp add: show_nat.simps [of n] mult.commute)
  next
    case False
    have m: "n mod 10 < 10" by simp
    have "parse_digits acc (show_nat n @ rest)
        = parse_digits acc (show_nat (n div 10) @ (digit_char (n mod 10) # rest))"
      using False by (simp add: show_nat.simps [of n])
    also have "\<dots> = parse_digits (acc * 10 ^ length (show_nat (n div 10)) + n div 10) (digit_char (n mod 10) # rest)"
      using False by (rule "1.IH")
    also have "\<dots> = parse_digits (10 * (acc * 10 ^ length (show_nat (n div 10)) + n div 10) + n mod 10) rest"
      using digit_char_props [OF m] by simp
    also have "10 * (acc * 10 ^ length (show_nat (n div 10)) + n div 10) + n mod 10
        = acc * 10 ^ length (show_nat n) + n"
      using False by (simp add: show_nat.simps [of n] algebra_simps)
    finally show ?thesis .
  qed
qed

lemma show_nat_head: "\<exists>c cs. show_nat n = c # cs \<and> is_digit c \<and> (0 < n \<longrightarrow> c \<noteq> CHR ''0'')"
proof (induction n rule: show_nat.induct)
  case (1 n)
  show ?case
  proof (cases "n < 10")
    case True
    then show ?thesis using digit_char_props [of n] by (simp add: show_nat.simps [of n])
  next
    case False
    then have "0 < n div 10" by simp
    with "1.IH" False obtain c cs where "show_nat (n div 10) = c # cs" "is_digit c" "c \<noteq> CHR ''0''"
      by auto
    with False show ?thesis by (simp add: show_nat.simps [of n])
  qed
qed

lemma parse_digits_end: "number_end rest \<Longrightarrow> parse_digits acc rest = (acc, rest)"
  by (cases rest) (auto simp: number_end_def)

lemma parse_nat_lit_show:
  assumes "number_end rest"
  shows "parse_nat_lit (show_nat n @ rest) = Some (n, rest)"
proof (cases "n = 0")
  case True
  have "show_nat 0 = ''0''" by code_simp
  with True show ?thesis by (simp add: parse_nat_lit_def)
next
  case False
  then obtain c cs where h: "show_nat n = c # cs" "is_digit c" "c \<noteq> CHR ''0''"
    using show_nat_head [of n] by auto
  have "parse_digits 0 (show_nat n @ rest) = (n, rest)"
    using parse_digits_show_nat [of 0 n rest] parse_digits_end [OF assms] by simp
  with h show ?thesis by (simp add: parse_nat_lit_def)
qed

lemma is_digit_not_special:
  "is_digit c \<Longrightarrow> \<not> is_ws c \<and> c \<noteq> CHR ''-'' \<and> c \<noteq> CHR ''n'' \<and> c \<noteq> CHR ''t'' \<and> c \<noteq> CHR ''f''
     \<and> c \<noteq> CHR 0x22 \<and> c \<noteq> CHR ''['' \<and> c \<noteq> CHR ''{'' \<and> c \<noteq> CHR '']'' \<and> c \<noteq> CHR ''}''"
  by (auto simp: is_digit_def is_ws_def)

lemma parse_number_show_int:
  assumes "number_end rest"
  shows "parse_number (show_int i @ rest) = Some (JNum i, rest)"
proof (cases "i < 0")
  case True
  then show ?thesis
    using parse_nat_lit_show [OF assms, of "nat (- i)"]
    by (simp add: show_int_def parse_number_def assms)
next
  case False
  obtain c cs where h: "show_nat (nat i) = c # cs" "is_digit c"
    using show_nat_head [of "nat i"] by auto
  then have "c \<noteq> CHR ''-''" using is_digit_not_special by blast
  with False h show ?thesis
    using parse_nat_lit_show [OF assms, of "nat i"]
    by (simp add: show_int_def parse_number_def assms)
qed

lemma show_int_head: "\<exists>c cs. show_int i = c # cs \<and> (c = CHR ''-'' \<or> is_digit c)"
  using show_nat_head [of "nat i"] by (auto simp: show_int_def)

lemma minus_not_special:
  "\<not> is_ws (CHR ''-'') \<and> CHR ''-'' \<noteq> CHR ''n'' \<and> CHR ''-'' \<noteq> CHR ''t'' \<and> CHR ''-'' \<noteq> CHR ''f''
     \<and> CHR ''-'' \<noteq> CHR 0x22 \<and> CHR ''-'' \<noteq> CHR ''['' \<and> CHR ''-'' \<noteq> CHR ''{''"
  by (simp add: is_ws_def)

lemma number_start:
  assumes "c = CHR ''-'' \<or> is_digit c"
  shows "\<not> is_ws c" "c \<noteq> CHR ''n''" "c \<noteq> CHR ''t''" "c \<noteq> CHR ''f''"
     "c \<noteq> CHR 0x22" "c \<noteq> CHR ''[''" "c \<noteq> CHR ''{''"
  using assms is_digit_not_special [of c] minus_not_special by blast+

lemma parse_value_number:
  assumes "c = CHR ''-'' \<or> is_digit c"
  shows "parse_value (Suc n) (c # cs) = parse_number (c # cs)"
  using number_start [OF assms]
  by (simp only: parse_value.simps dropWhile.simps if_False list.case)

lemma hex_val_hex_char: "d < 16 \<Longrightarrow> hex_val (hex_char d) = Some d"
  by (auto simp: hex_val_def hex_char_def Let_def)

lemma char_of_of_char_nat: "char_of (of_char c :: nat) = c"
  by simp

lemma parse_escape_char:
  "parse_string_body (escape_char c @ t) = cons_result c (parse_string_body t)"
proof -
  consider (q) "c = CHR 0x22" | (b) "c = CHR 0x5C"
    | (c8) "c = CHR 0x08" | (c9) "c = CHR 0x09" | (ca) "c = CHR 0x0A" | (cc) "c = CHR 0x0C" | (cd) "c = CHR 0x0D"
    | (u) "c \<noteq> CHR 0x22" "c \<noteq> CHR 0x5C" "c \<noteq> CHR 0x08" "c \<noteq> CHR 0x09" "c \<noteq> CHR 0x0A" "c \<noteq> CHR 0x0C" "c \<noteq> CHR 0x0D"
          "(of_char c :: nat) < 32"
    | (p) "c \<noteq> CHR 0x22" "c \<noteq> CHR 0x5C" "\<not> (of_char c :: nat) < 32"
    by blast
  then show ?thesis
  proof cases
    case u
    have h1: "hex_val (hex_char (of_char c div 16)) = Some (of_char c div 16)"
      using u by (intro hex_val_hex_char) simp
    have h2: "hex_val (hex_char (of_char c mod 16)) = Some (of_char c mod 16)"
      by (intro hex_val_hex_char) simp
    have h0: "hex_val (CHR ''0'') = Some 0" by (simp add: hex_val_def)
    have "hex4 (CHR ''0'') (CHR ''0'') (hex_char (of_char c div 16)) (hex_char (of_char c mod 16)) = Some (of_char c)"
      by (simp add: hex4_def h0 h1 h2)
    with u show ?thesis by (simp add: escape_char_def)
  next
    case p
    then have "escape_char c = [c]" by (auto simp: escape_char_def)
    with p show ?thesis by simp
  qed (simp_all add: escape_char_def unescape_def)
qed

lemma parse_string_body_escape:
  "parse_string_body (concat (map escape_char s) @ CHR 0x22 # rest) = Some (s, rest)"
  by (induction s) (simp_all add: parse_escape_char cons_result_def)

lemma parse_quote: "\<exists>body. quote s = CHR 0x22 # body \<and> parse_string_body (body @ rest) = Some (s, rest)"
  by (simp add: quote_def parse_string_body_escape)

lemma stringify_head:
  "\<exists>c cs. stringify v = c # cs \<and> \<not> is_ws c \<and> c \<noteq> CHR '']''"
proof (cases v)
  case (JNum i)
  obtain c cs where h: "show_int i = c # cs" "c = CHR ''-'' \<or> is_digit c"
    using show_int_head by blast
  then have "\<not> is_ws c \<and> c \<noteq> CHR '']''"
    using is_digit_not_special [of c] minus_not_special by (cases "c = CHR ''-''") simp_all
  with JNum h show ?thesis by simp
qed (simp_all add: is_ws_def quote_def)

lemma elems_head:
  "xs \<noteq> [] \<Longrightarrow> \<exists>c cs. stringify_elems xs = c # cs \<and> \<not> is_ws c \<and> c \<noteq> CHR '']''"
proof (cases xs)
  case Nil
  assume "xs \<noteq> []"
  with Nil show ?thesis by simp
next
  case (Cons x ys)
  obtain c cs where h: "stringify x = c # cs" "\<not> is_ws c" "c \<noteq> CHR '']''"
    using stringify_head by blast
  with Cons show ?thesis by (cases ys) simp_all
qed

lemma members_head:
  "kvs \<noteq> [] \<Longrightarrow> \<exists>cs. stringify_members kvs = CHR 0x22 # cs"
proof (cases kvs)
  case Nil
  assume "kvs \<noteq> []"
  with Nil show ?thesis by simp
next
  case (Cons kv rest)
  obtain k v where "kv = (k, v)" by (cases kv)
  with Cons show ?thesis by (cases rest) (simp_all add: quote_def)
qed

lemma pv_null: "parse_value (Suc n) (''null'' @ rest) = Some (JNull, rest)"
  by (simp add: is_ws_def strip_prefix_def)

lemma pv_true: "parse_value (Suc n) (''true'' @ rest) = Some (JBool True, rest)"
  by (simp add: is_ws_def strip_prefix_def)

lemma pv_false: "parse_value (Suc n) (''false'' @ rest) = Some (JBool False, rest)"
  by (simp add: is_ws_def strip_prefix_def)

lemma pv_str: "parse_value (Suc n) (quote s @ rest) = Some (JStr s, rest)"
proof -
  obtain body where b: "quote s = CHR 0x22 # body" "parse_string_body (body @ rest) = Some (s, rest)"
    using parse_quote by blast
  then show ?thesis by (simp add: is_ws_def)
qed

lemma pv_arr_empty: "parse_value (Suc n) (''[]'' @ rest) = Some (JArr [], rest)"
  by (simp add: is_ws_def)

lemma pv_obj_empty: "parse_value (Suc n) (''{}'' @ rest) = Some (JObj [], rest)"
  by (simp add: is_ws_def)

lemma pv_arr:
  "\<not> is_ws c \<Longrightarrow> c \<noteq> CHR '']'' \<Longrightarrow>
   parse_value (Suc n) (CHR ''['' # c # cs) =
     (case parse_elems n (c # cs) of None \<Rightarrow> None | Some (xs, t) \<Rightarrow> Some (JArr xs, t))"
  by (simp add: is_ws_def)

lemma pv_obj:
  "parse_value (Suc n) (CHR ''{'' # CHR 0x22 # cs) =
     (case parse_members n (CHR 0x22 # cs) of None \<Rightarrow> None | Some (kvs, t) \<Rightarrow> Some (JObj (normalise kvs), t))"
  by (simp add: is_ws_def)

lemma update_fresh: "k \<notin> fst ` set acc \<Longrightarrow> AList.update k v acc = acc @ [(k, v)]"
  by (induction acc) auto

lemma foldl_update_distinct:
  "distinct (map fst (acc @ kvs)) \<Longrightarrow>
   foldl (\<lambda>acc (k, v). AList.update k v acc) acc kvs = acc @ kvs"
proof (induction kvs arbitrary: acc)
  case Nil
  then show ?case by simp
next
  case (Cons kv kvs)
  obtain k v where kv: "kv = (k, v)" by (cases kv)
  from Cons.prems kv have fresh: "k \<notin> fst ` set acc" by auto
  from Cons.prems kv have d: "distinct (map fst ((acc @ [(k, v)]) @ kvs))" by simp
  show ?case using Cons.IH [OF d] kv by (simp add: update_fresh [OF fresh])
qed

lemma normalise_distinct: "distinct (map fst kvs) \<Longrightarrow> js_order kvs = kvs \<Longrightarrow> normalise kvs = kvs"
  using foldl_update_distinct [of "[]" kvs] by (simp add: normalise_def)

lemma ne_comma: "number_end (CHR '','' # r)" by (simp add: number_end_def is_digit_def)
lemma ne_rbracket: "number_end (CHR '']'' # r)" by (simp add: number_end_def is_digit_def)
lemma ne_rbrace: "number_end (CHR ''}'' # r)" by (simp add: number_end_def is_digit_def)

lemma ws_comma: "dropWhile is_ws (CHR '','' # r) = CHR '','' # r" by (simp add: is_ws_def)
lemma ws_rbracket: "dropWhile is_ws (CHR '']'' # r) = CHR '']'' # r" by (simp add: is_ws_def)
lemma ws_rbrace: "dropWhile is_ws (CHR ''}'' # r) = CHR ''}'' # r" by (simp add: is_ws_def)
lemma ws_colon: "dropWhile is_ws (CHR '':'' # r) = CHR '':'' # r" by (simp add: is_ws_def)
lemma ws_quote: "dropWhile is_ws (CHR 0x22 # r) = CHR 0x22 # r" by (simp add: is_ws_def)

lemma pm_step:
  "parse_members (Suc n) (quote k @ CHR '':'' # s) =
     (case parse_value n s of
        None \<Rightarrow> None
      | Some (v, r3) \<Rightarrow>
          (case dropWhile is_ws r3 of
             [] \<Rightarrow> None
           | c3 # r4 \<Rightarrow>
               if c3 = CHR '','' then
                 (case parse_members n r4 of None \<Rightarrow> None | Some (kvs, u) \<Rightarrow> Some ((k, v) # kvs, u))
               else if c3 = CHR ''}'' then Some ([(k, v)], r4)
               else None))"
proof -
  obtain body where b: "quote k = CHR 0x22 # body"
     "parse_string_body (body @ CHR '':'' # s) = Some (k, CHR '':'' # s)"
    using parse_quote by blast
  show ?thesis
    by (simp only: b append_Cons parse_members.simps ws_quote ws_colon list.case if_True option.case prod.case simp_thms)
qed

lemma pm_last:
  "parse_value n s = Some (v, CHR ''}'' # rest) \<Longrightarrow>
   parse_members (Suc n) (quote k @ CHR '':'' # s) = Some ([(k, v)], rest)"
  by (simp add: pm_step ws_rbrace del: parse_members.simps dropWhile.simps)

lemma pm_more:
  "parse_value n s = Some (v, CHR '','' # t) \<Longrightarrow> parse_members n t = Some (kvs, rest) \<Longrightarrow>
   parse_members (Suc n) (quote k @ CHR '':'' # s) = Some ((k, v) # kvs, rest)"
  by (simp add: pm_step ws_comma del: parse_members.simps dropWhile.simps)

lemma roundtrip_aux:
  "wf_json v \<longrightarrow> (\<forall>n rest. length (stringify v) < n \<longrightarrow> number_end rest \<longrightarrow>
       parse_value n (stringify v @ rest) = Some (v, rest))"
  "wf_elems xs \<longrightarrow> xs \<noteq> [] \<longrightarrow> (\<forall>n rest. length (stringify_elems xs) + 1 < n \<longrightarrow>
       parse_elems n (stringify_elems xs @ CHR '']'' # rest) = Some (xs, rest))"
  "wf_members kvs \<longrightarrow> kvs \<noteq> [] \<longrightarrow> (\<forall>n rest. length (stringify_members kvs) + 1 < n \<longrightarrow>
       parse_members n (stringify_members kvs @ CHR ''}'' # rest) = Some (kvs, rest))"
proof (induction v and xs and kvs rule: stringify_stringify_elems_stringify_members.induct)
  case 1
  show ?case
  proof (intro impI allI)
    fix n :: nat and rest
    assume "length (stringify JNull) < n"
    then obtain m where "n = Suc m" by (cases n) simp_all
    then show "parse_value n (stringify JNull @ rest) = Some (JNull, rest)"
      using pv_null [of m rest] by simp
  qed
next
  case (2 b)
  show ?case
  proof (intro impI allI)
    fix n :: nat and rest
    assume "length (stringify (JBool b)) < n"
    then obtain m where "n = Suc m" by (cases n) simp_all
    then show "parse_value n (stringify (JBool b) @ rest) = Some (JBool b, rest)"
      using pv_true [of m rest] pv_false [of m rest] by (cases b) simp_all
  qed
next
  case (3 i)
  show ?case
  proof (intro impI allI)
    fix n :: nat and rest
    assume "length (stringify (JNum i)) < n" and ne: "number_end rest"
    then obtain m where n: "n = Suc m" by (cases n) simp_all
    obtain c cs where h: "show_int i = c # cs" "c = CHR ''-'' \<or> is_digit c"
      using show_int_head by blast
    have "parse_value (Suc m) (c # (cs @ rest)) = parse_number (c # (cs @ rest))"
      using h(2) by (rule parse_value_number)
    then show "parse_value n (stringify (JNum i) @ rest) = Some (JNum i, rest)"
      using parse_number_show_int [OF ne, of i] h(1) n by simp
  qed
next
  case (4 s)
  show ?case
  proof (intro impI allI)
    fix n :: nat and rest
    assume "length (stringify (JStr s)) < n"
    then obtain m where "n = Suc m" by (cases n) simp_all
    then show "parse_value n (stringify (JStr s) @ rest) = Some (JStr s, rest)"
      using pv_str [of m s rest] by simp
  qed
next
  case (5 xs)
  show ?case
  proof (intro impI allI)
    fix n :: nat and rest
    assume wf: "wf_json (JArr xs)" and len: "length (stringify (JArr xs)) < n"
    from len obtain m where n: "n = Suc m" by (cases n) simp_all
    show "parse_value n (stringify (JArr xs) @ rest) = Some (JArr xs, rest)"
    proof (cases "xs = []")
      case True
      then show ?thesis using pv_arr_empty [of m rest] n by simp
    next
      case False
      obtain c cs where h: "stringify_elems xs = c # cs" "\<not> is_ws c" "c \<noteq> CHR '']''"
        using elems_head [OF False] by blast
      from len n have "length (stringify_elems xs) + 1 < m" by simp
      with 5 wf False have "parse_elems m (stringify_elems xs @ CHR '']'' # rest) = Some (xs, rest)"
        by simp
      then have "parse_elems m (c # (cs @ CHR '']'' # rest)) = Some (xs, rest)"
        using h(1) by simp
      then have "parse_value (Suc m) (CHR ''['' # c # (cs @ CHR '']'' # rest)) = Some (JArr xs, rest)"
        using pv_arr [OF h(2) h(3), of m "cs @ CHR '']'' # rest"] by simp
      then show ?thesis using h(1) n by simp
    qed
  qed
next
  case (6 kvs)
  show ?case
  proof (intro impI allI)
    fix n :: nat and rest
    assume wf: "wf_json (JObj kvs)" and len: "length (stringify (JObj kvs)) < n"
    from len obtain m where n: "n = Suc m" by (cases n) simp_all
    show "parse_value n (stringify (JObj kvs) @ rest) = Some (JObj kvs, rest)"
    proof (cases "kvs = []")
      case True
      then show ?thesis using pv_obj_empty [of m rest] n by simp
    next
      case False
      obtain cs where h: "stringify_members kvs = CHR 0x22 # cs"
        using members_head [OF False] by blast
      from len n have "length (stringify_members kvs) + 1 < m" by simp
      with 6 wf False have "parse_members m (stringify_members kvs @ CHR ''}'' # rest) = Some (kvs, rest)"
        by simp
      then have "parse_members m (CHR 0x22 # (cs @ CHR ''}'' # rest)) = Some (kvs, rest)"
        using h by simp
      then have "parse_value (Suc m) (CHR ''{'' # CHR 0x22 # (cs @ CHR ''}'' # rest)) = Some (JObj (normalise kvs), rest)"
        using pv_obj [of m "cs @ CHR ''}'' # rest"] by simp
      moreover have "normalise kvs = kvs" using wf by (simp add: normalise_distinct)
      ultimately show ?thesis using h n by simp
    qed
  qed
next
  case 7
  show ?case by simp
next
  case (8 x)
  show ?case
  proof (intro impI allI)
    fix n :: nat and rest
    assume wf: "wf_elems [x]" and len: "length (stringify_elems [x]) + 1 < n"
    from len obtain m where n: "n = Suc m" by (cases n) simp_all
    from len n have "length (stringify x) < m" by simp
    with 8 wf have "parse_value m (stringify x @ CHR '']'' # rest) = Some (x, CHR '']'' # rest)"
      using ne_rbracket by simp
    then show "parse_elems n (stringify_elems [x] @ CHR '']'' # rest) = Some ([x], rest)"
      using n by (simp add: ws_rbracket del: dropWhile.simps)
  qed
next
  case (9 x y ys)
  show ?case
  proof (intro impI allI)
    fix n :: nat and rest
    assume wf: "wf_elems (x # y # ys)" and len: "length (stringify_elems (x # y # ys)) + 1 < n"
    from len obtain m where n: "n = Suc m" by (cases n) simp_all
    let ?tail = "stringify_elems (y # ys) @ CHR '']'' # rest"
    from len n have l1: "length (stringify x) < m" and l2: "length (stringify_elems (y # ys)) + 1 < m"
      by simp_all
    from 9(1) wf l1 have a: "parse_value m (stringify x @ CHR '','' # ?tail) = Some (x, CHR '','' # ?tail)"
      using ne_comma by simp
    from 9(2) wf l2 have b: "parse_elems m ?tail = Some (y # ys, rest)" by simp
    have "parse_elems (Suc m) (stringify x @ CHR '','' # ?tail) = Some (x # y # ys, rest)"
      by (simp only: parse_elems.simps a b ws_comma option.case prod.case list.case if_True simp_thms)
    then show "parse_elems n (stringify_elems (x # y # ys) @ CHR '']'' # rest) = Some (x # y # ys, rest)"
      using n by simp
  qed
next
  case 10
  show ?case by simp
next
  case (11 k v)
  show ?case
  proof (intro impI allI)
    fix n :: nat and rest
    assume wf: "wf_members [(k, v)]" and len: "length (stringify_members [(k, v)]) + 1 < n"
    from len obtain m where n: "n = Suc m" by (cases n) simp_all
    from len n have "length (stringify v) < m" by simp
    with 11 wf have a: "parse_value m (stringify v @ CHR ''}'' # rest) = Some (v, CHR ''}'' # rest)"
      using ne_rbrace by simp
    have "parse_members (Suc m) (quote k @ CHR '':'' # (stringify v @ CHR ''}'' # rest)) = Some ([(k, v)], rest)"
      using a by (rule pm_last)
    then show "parse_members n (stringify_members [(k, v)] @ CHR ''}'' # rest) = Some ([(k, v)], rest)"
      using n by simp
  qed
next
  case (12 k v kv kvs)
  show ?case
  proof (intro impI allI)
    fix n :: nat and rest
    assume wf: "wf_members ((k, v) # kv # kvs)"
      and len: "length (stringify_members ((k, v) # kv # kvs)) + 1 < n"
    from len obtain m where n: "n = Suc m" by (cases n) simp_all
    let ?tail = "stringify_members (kv # kvs) @ CHR ''}'' # rest"
    from len n have l1: "length (stringify v) < m" and l2: "length (stringify_members (kv # kvs)) + 1 < m"
      by simp_all
    from 12(1) wf l1 have a: "parse_value m (stringify v @ CHR '','' # ?tail) = Some (v, CHR '','' # ?tail)"
      using ne_comma by simp
    from 12(2) wf l2 have b: "parse_members m ?tail = Some (kv # kvs, rest)" by simp
    have "parse_members (Suc m) (quote k @ CHR '':'' # (stringify v @ CHR '','' # ?tail)) = Some ((k, v) # kv # kvs, rest)"
      using a b by (rule pm_more)
    then show "parse_members n (stringify_members ((k, v) # kv # kvs) @ CHR ''}'' # rest) = Some ((k, v) # kv # kvs, rest)"
      using n by simp
  qed
qed

lemma json_roundtrip: "wf_json v \<Longrightarrow> json_parse (stringify v) = Some v"
proof -
  assume wf: "wf_json v"
  have ne: "number_end []" by (simp add: number_end_def)
  have "parse_value (Suc (length (stringify v))) (stringify v @ []) = Some (v, [])"
    using roundtrip_aux(1) [of v] wf ne by blast
  then show ?thesis by (simp add: json_parse_def del: parse_value.simps)
qed


section \<open>The scheduler keeps at most one trigger per plugin\<close>

lemma filter_unique_index:
  "(\<And>i j. i < length xs \<Longrightarrow> j < length xs \<Longrightarrow> P (xs ! i) \<Longrightarrow> P (xs ! j) \<Longrightarrow> i = j)
   \<Longrightarrow> length (filter P xs) \<le> 1"
proof (induction xs)
  case Nil
  then show ?case by simp
next
  case (Cons x xs)
  have step: "\<And>i j. i < length xs \<Longrightarrow> j < length xs \<Longrightarrow> P (xs ! i) \<Longrightarrow> P (xs ! j) \<Longrightarrow> i = j"
  proof -
    fix i j assume "i < length xs" "j < length xs" "P (xs ! i)" "P (xs ! j)"
    then have "Suc i = Suc j" using Cons.prems [of "Suc i" "Suc j"] by simp
    then show "i = j" by simp
  qed
  show ?case
  proof (cases "P x")
    case True
    have "filter P xs = []"
    proof (rule ccontr)
      assume "filter P xs \<noteq> []"
      then obtain y where "y \<in> set xs" "P y" by (metis filter_False)
      then obtain k where "k < length xs" "xs ! k = y" by (auto simp: in_set_conv_nth)
      with True \<open>P y\<close> have "0 = Suc k" using Cons.prems [of 0 "Suc k"] by simp
      then show False by simp
    qed
    with True show ?thesis by simp
  next
    case False
    with Cons.IH step show ?thesis by simp
  qed
qed

lemma sched_inv_at_most_one: "sched_inv s \<Longrightarrow> length (active_triggers s p) \<le> 1"
  unfolding active_triggers_def
proof (rule filter_unique_index)
  fix i j
  assume inv: "sched_inv s" and i: "i < length (cron_tasks s)" and j: "j < length (cron_tasks s)"
    and pi: "task_plugin (cron_tasks s ! i) = p \<and> task_running (cron_tasks s ! i)"
    and pj: "task_plugin (cron_tasks s ! j) = p \<and> task_running (cron_tasks s ! j)"
  from inv i pi have "activeJobs s p = Some i" by (auto simp: sched_inv_def)
  moreover from inv j pj have "activeJobs s p = Some j" by (auto simp: sched_inv_def)
  ultimately show "i = j" by simp
qed

lemma sched_inv_module_load: "sched_inv (module_load root)"
  by (simp add: sched_inv_def module_load_def)

lemma sched_inv_stop: "sched_inv s \<Longrightarrow> sched_inv (stopScheduledJob p s)"
  by (auto simp: sched_inv_def stopScheduledJob_def job_stop_def nth_list_update split: option.splits)

lemma filter_nil_nth: "(\<And>i. i < length xs \<Longrightarrow> \<not> P (xs ! i)) \<Longrightarrow> filter P xs = []"
  by (auto simp: filter_empty_conv in_set_conv_nth)

lemma stop_no_trigger: "sched_inv s \<Longrightarrow> active_triggers (stopScheduledJob p s) p = []"
proof (cases "activeJobs s p")
  case None
  assume inv: "sched_inv s"
  have "\<And>i. i < length (cron_tasks s) \<Longrightarrow>
          \<not> (task_plugin (cron_tasks s ! i) = p \<and> task_running (cron_tasks s ! i))"
    using inv None by (auto simp: sched_inv_def)
  then have "filter (\<lambda>t. task_plugin t = p \<and> task_running t) (cron_tasks s) = []"
    by (rule filter_nil_nth)
  with None show ?thesis
    by (simp add: stopScheduledJob_def active_triggers_def)
next
  case (Some job)
  assume inv: "sched_inv s"
  have other: "\<And>i. i < length (cron_tasks s) \<Longrightarrow> task_running (cron_tasks s ! i) \<Longrightarrow>
          task_plugin (cron_tasks s ! i) = p \<Longrightarrow> i = job"
    using inv Some by (auto simp: sched_inv_def)
  have "\<And>i. i < length (cron_tasks s) \<Longrightarrow>
          \<not> (task_plugin (job_stop job (cron_tasks s) ! i) = p \<and>
             task_running (job_stop job (cron_tasks s) ! i))"
  proof -
    fix i assume i: "i < length (cron_tasks s)"
    show "\<not> (task_plugin (job_stop job (cron_tasks s) ! i) = p \<and>
             task_running (job_stop job (cron_tasks s) ! i))"
    proof (cases "i = job")
      case True
      with i show ?thesis by (simp add: job_stop_def)
    next
      case False
      with i other [of i] show ?thesis by (auto simp: job_stop_def)
    qed
  qed
  moreover have "length (job_stop job (cron_tasks s)) = length (cron_tasks s)"
    by (simp add: job_stop_def)
  ultimately have "filter (\<lambda>t. task_plugin t = p \<and> task_running t) (job_stop job (cron_tasks s)) = []"
    by (intro filter_nil_nth) simp
  with Some show ?thesis
    by (simp add: stopScheduledJob_def active_triggers_def)
qed

lemma stop_unregisters: "activeJobs (stopScheduledJob p s) p = None"
  by (auto simp: stopScheduledJob_def split: option.splits)

lemma stop_root: "plugin_root (stopScheduledJob p s) = plugin_root s"
  by (auto simp: stopScheduledJob_def split: option.splits)

lemma sched_inv_start: "sched_inv s \<Longrightarrow> sched_inv (snd (startScheduledJob cv p cfg s))"
proof -
  assume "sched_inv s"
  then have a: "sched_inv (stopScheduledJob p s)" by (rule sched_inv_stop)
  have b: "active_triggers (stopScheduledJob p s) p = []" using \<open>sched_inv s\<close> by (rule stop_no_trigger)
  from b have c: "\<And>j. j < length (cron_tasks (stopScheduledJob p s)) \<Longrightarrow>
      task_running (cron_tasks (stopScheduledJob p s) ! j) \<Longrightarrow> task_plugin (cron_tasks (stopScheduledJob p s) ! j) \<noteq> p"
    by (auto simp: active_triggers_def filter_empty_conv)
  show ?thesis using a c
    by (auto simp: startScheduledJob_def Let_def cron_schedule_def sched_inv_def nth_append
          split: sum.splits option.splits json.splits if_splits)
qed

lemma start_registers:
  "sched_inv s \<Longrightarrow> startScheduledJob cv p cfg s = (None, s') \<Longrightarrow>
   truthy (cfg ''schedule'') \<Longrightarrow> truthy (cfg ''enabled'') \<Longrightarrow>
   length (active_triggers s' p) = 1 \<and> activeJobs s' p \<noteq> None"
proof -
  assume inv: "sched_inv s" and st: "startScheduledJob cv p cfg s = (None, s')"
    and t: "truthy (cfg ''schedule'')" "truthy (cfg ''enabled'')"
  have b: "active_triggers (stopScheduledJob p s) p = []" using inv by (rule stop_no_trigger)
  from st t b show ?thesis
    by (auto simp: startScheduledJob_def Let_def cron_schedule_def active_triggers_def
          split: sum.splits option.splits json.splits if_splits)
qed

lemma start_skips:
  "sched_inv s \<Longrightarrow> \<not> (truthy (cfg ''schedule'') \<and> truthy (cfg ''enabled'')) \<Longrightarrow>
   active_triggers (snd (startScheduledJob cv p cfg s)) p = [] \<and>
   activeJobs (snd (startScheduledJob cv p cfg s)) p = None"
  using stop_no_trigger [of s p] stop_unregisters [of p s]
  by (auto simp: startScheduledJob_def Let_def)

lemma start_root: "plugin_root (snd (startScheduledJob cv p cfg s)) = plugin_root s"
  by (auto simp: startScheduledJob_def Let_def cron_schedule_def stop_root
        split: sum.splits option.splits json.splits if_splits)

lemma start_throw_no_trigger:
  "sched_inv s \<Longrightarrow> startScheduledJob cv p cfg s = (Some e, s') \<Longrightarrow> active_triggers s' p = []"
  using stop_no_trigger [of s p]
  by (auto simp: startScheduledJob_def Let_def cron_schedule_def
        split: sum.splits option.splits json.splits if_splits)

lemma read_after_write:
  "read_descriptor root p = Inr c \<Longrightarrow> read_descriptor (write_descriptor root p c') p = Inr c'"
  by (auto simp: read_descriptor_def write_descriptor_def update_conv' split: option.splits entry.splits descriptor_file.splits)

lemma sched_inv_root: "sched_inv (s\<lparr>plugin_root := r\<rparr>) = sched_inv s"
  by (simp add: sched_inv_def)

lemma sched_inv_start_eq: "startScheduledJob cv p cfg s = (t, s') \<Longrightarrow> sched_inv s \<Longrightarrow> sched_inv s'"
  using sched_inv_start [of s cv p cfg] by simp

lemma enable_inv: "sched_inv s \<Longrightarrow> sched_inv (snd (enable_plugin cv p s))"
  by (auto simp: enable_plugin_def Let_def sched_inv_root
        split: sum.splits prod.splits option.splits if_splits
        dest: sched_inv_start_eq)

lemma disable_inv: "sched_inv s \<Longrightarrow> sched_inv (snd (disable_plugin p s))"
  by (auto simp: disable_plugin_def Let_def sched_inv_root sched_inv_stop
        split: sum.splits prod.splits option.splits)

lemma update_config_inv: "sched_inv s \<Longrightarrow> sched_inv (snd (update_config cv p u s))"
  by (auto simp: update_config_def Let_def sched_inv_root sched_inv_stop
        split: sum.splits prod.splits option.splits if_splits
        dest!: sched_inv_start_eq)

lemma init_loop_inv: "sched_inv s \<Longrightarrow> sched_inv (initializeScheduledJobs_loop cv es s)"
  by (induction cv es s rule: initializeScheduledJobs_loop.induct)
     (auto simp: sched_inv_start split: entry.splits descriptor_file.splits)

lemma enable_one_trigger:
  assumes inv: "sched_inv s"
    and en: "enable_plugin cv p s = (Reply 200 body, s')"
    and rd: "read_descriptor (plugin_root s) p = Inr c"
    and sch: "truthy (c ''schedule'')"
  shows "length (active_triggers s' p) = 1 \<and> activeJobs s' p \<noteq> None \<and>
         read_descriptor (plugin_root s') p = Inr (c(''enabled'' \<mapsto> JBool True))"
proof -
  let ?c = "c(''enabled'' \<mapsto> JBool True)"
  let ?s1 = "s\<lparr>plugin_root := write_descriptor (plugin_root s) p ?c\<rparr>"
  have w: "sched_inv ?s1" using inv by (simp add: sched_inv_def)
  from en rd sch have st: "startScheduledJob cv p ?c ?s1 = (None, s')"
    by (auto simp: enable_plugin_def Let_def split: prod.splits option.splits)
  from start_registers [OF w st] sch have "length (active_triggers s' p) = 1 \<and> activeJobs s' p \<noteq> None"
    by simp
  moreover have "plugin_root s' = plugin_root ?s1"
    using start_root [of cv p ?c ?s1] st by simp
  ultimately show ?thesis using read_after_write [OF rd] by simp
qed

text \<open>
  Claim C6.  In a state where every running task is the one registered for its plugin
  (which holds when the module is loaded and is kept by every operation),
  \<open>startScheduledJob\<close> keeps that invariant and leaves at most one active trigger for
  every plugin id.  It stops the registered job first; when the descriptor has a truthy
  \<^verbatim>\<open>schedule\<close> and \<^verbatim>\<open>enabled\<close> and the cron library accepts the pattern, exactly one
  trigger is active for the id afterwards and the id is registered; when \<^verbatim>\<open>enabled\<close> is
  false or there is no schedule, no trigger is active and the id is unregistered.
  Enabling a scheduled plugin twice in a row leaves exactly one active trigger after the
  first and after the second request.
\<close>

theorem at_most_one_trigger_per_plugin:
  assumes inv: "sched_inv s"
  shows "sched_inv (snd (startScheduledJob cv p cfg s))
    \<and> (\<forall>q. length (active_triggers (snd (startScheduledJob cv p cfg s)) q) \<le> 1)
    \<and> (truthy (cfg ''schedule'') \<and> truthy (cfg ''enabled'') \<and> fst (startScheduledJob cv p cfg s) = None
         \<longrightarrow> length (active_triggers (snd (startScheduledJob cv p cfg s)) p) = 1
             \<and> activeJobs (snd (startScheduledJob cv p cfg s)) p \<noteq> None)
    \<and> (\<not> (truthy (cfg ''schedule'') \<and> truthy (cfg ''enabled''))
         \<longrightarrow> active_triggers (snd (startScheduledJob cv p cfg s)) p = []
             \<and> activeJobs (snd (startScheduledJob cv p cfg s)) p = None)
    \<and> (\<forall>c. read_descriptor (plugin_root s) p = Inr c \<and> truthy (c ''schedule'')
           \<and> (\<exists>b. fst (enable_plugin cv p s) = Reply 200 b)
           \<and> (\<exists>b. fst (enable_plugin cv p (snd (enable_plugin cv p s))) = Reply 200 b)
         \<longrightarrow> length (active_triggers (snd (enable_plugin cv p s)) p) = 1
           \<and> length (active_triggers (snd (enable_plugin cv p (snd (enable_plugin cv p s)))) p) = 1)"
proof (intro conjI allI impI)
  show i: "sched_inv (snd (startScheduledJob cv p cfg s))" using inv by (rule sched_inv_start)
  show "length (active_triggers (snd (startScheduledJob cv p cfg s)) q) \<le> 1" for q
    using i by (rule sched_inv_at_most_one)
next
  assume a: "truthy (cfg ''schedule'') \<and> truthy (cfg ''enabled'') \<and> fst (startScheduledJob cv p cfg s) = None"
  then have "startScheduledJob cv p cfg s = (None, snd (startScheduledJob cv p cfg s))"
    by (metis prod.collapse)
  from start_registers [OF inv this] a
  show "length (active_triggers (snd (startScheduledJob cv p cfg s)) p) = 1"
    and "activeJobs (snd (startScheduledJob cv p cfg s)) p \<noteq> None" by simp_all
next
  assume a: "\<not> (truthy (cfg ''schedule'') \<and> truthy (cfg ''enabled''))"
  from start_skips [OF inv a]
  show "active_triggers (snd (startScheduledJob cv p cfg s)) p = []"
    and "activeJobs (snd (startScheduledJob cv p cfg s)) p = None" by simp_all
next
  fix c
  let ?s1 = "snd (enable_plugin cv p s)"
  let ?s2 = "snd (enable_plugin cv p ?s1)"
  assume a: "read_descriptor (plugin_root s) p = Inr c \<and> truthy (c ''schedule'')
           \<and> (\<exists>b. fst (enable_plugin cv p s) = Reply 200 b)
           \<and> (\<exists>b. fst (enable_plugin cv p (snd (enable_plugin cv p s))) = Reply 200 b)"
  then obtain b1 b2 where e1: "enable_plugin cv p s = (Reply 200 b1, ?s1)"
    and e2: "enable_plugin cv p ?s1 = (Reply 200 b2, ?s2)"
    by (metis prod.collapse)
  from a have rd: "read_descriptor (plugin_root s) p = Inr c" and sch: "truthy (c ''schedule'')" by simp_all
  note one = enable_one_trigger [OF inv e1 rd sch]
  have inv1: "sched_inv ?s1" using inv by (rule enable_inv)
  from one have rd1: "read_descriptor (plugin_root ?s1) p = Inr (c(''enabled'' \<mapsto> JBool True))" by simp
  have sch1: "truthy ((c(''enabled'' \<mapsto> JBool True)) ''schedule'')" using sch by simp
  note two = enable_one_trigger [OF inv1 e2 rd1 sch1]
  from one show "length (active_triggers ?s1 p) = 1" by simp
  from two show "length (active_triggers ?s2 p) = 1" by simp
qed

lemma read_weather: "read_descriptor weather_root ''weather'' = Inr hourly"
  by (simp add: read_descriptor_def weather_root_def)

lemma start_weather:
  "startScheduledJob always_valid ''weather'' hourly (module_load weather_root)
   = (None, \<lparr>plugin_root = weather_root,
        cron_tasks = [\<lparr>task_plugin = ''weather'', task_schedule = ''0 * * * *'',
                       task_config = hourly, task_running = True\<rparr>],
        activeJobs = [''weather'' \<mapsto> 0]\<rparr>)"
  by (simp add: startScheduledJob_def stopScheduledJob_def module_load_def cron_schedule_def
        hourly_def always_valid_def)

lemma enable_weather_once:
  "\<exists>b. fst (enable_plugin always_valid ''weather'' (module_load weather_root)) = Reply 200 b"
  by (simp add: enable_plugin_def module_load_def read_weather Let_def hourly_def
        startScheduledJob_def stopScheduledJob_def cron_schedule_def always_valid_def
        split: prod.splits)

lemma enable_weather_twice:
  "\<exists>b. fst (enable_plugin always_valid ''weather''
          (snd (enable_plugin always_valid ''weather'' (module_load weather_root)))) = Reply 200 b"
  by (simp add: enable_plugin_def module_load_def read_weather Let_def hourly_def
        startScheduledJob_def stopScheduledJob_def cron_schedule_def always_valid_def
        read_descriptor_def write_descriptor_def weather_root_def job_stop_def
        split: prod.splits)

theorem at_most_one_trigger_per_plugin_witness:
  "sched_inv (module_load weather_root)
   \<and> length (active_triggers (snd (startScheduledJob always_valid ''weather'' hourly
        (module_load weather_root))) ''weather'') = 1
   \<and> length (active_triggers (snd (enable_plugin always_valid ''weather''
        (snd (enable_plugin always_valid ''weather'' (module_load weather_root))))) ''weather'') = 1"
proof -
  have inv: "sched_inv (module_load weather_root)" by (rule sched_inv_module_load)
  have t: "truthy (hourly ''schedule'') \<and> truthy (hourly ''enabled'')" by (simp add: hourly_def)
  have rd: "read_descriptor (plugin_root (module_load weather_root)) ''weather'' = Inr hourly"
    by (simp add: module_load_def read_weather)
  note main = at_most_one_trigger_per_plugin [OF inv, of always_valid "''weather''" hourly]
  from main t start_weather
  have a: "length (active_triggers (snd (startScheduledJob always_valid ''weather'' hourly
        (module_load weather_root))) ''weather'') = 1"
    by simp
  from main rd t enable_weather_once enable_weather_twice
  have b: "length (active_triggers (snd (enable_plugin always_valid ''weather''
        (snd (enable_plugin always_valid ''weather'' (module_load weather_root))))) ''weather'') = 1"
    by blast
  from inv a b show ?thesis by simp
qed

section \<open>A configuration update that removes the schedule\<close>

lemma disable_leaves_no_trigger:
  assumes "sched_inv s" and "disable_plugin p s = (Reply code body, s')"
  shows "active_triggers s' p = []"
proof -
  from assms(2) obtain c where
    "s' = stopScheduledJob p (s\<lparr>plugin_root := write_descriptor (plugin_root s) p (c(''enabled'' \<mapsto> JBool False))\<rparr>)"
    by (auto simp: disable_plugin_def Let_def split: sum.splits)
  moreover have "sched_inv (s\<lparr>plugin_root := write_descriptor (plugin_root s) p (c(''enabled'' \<mapsto> JBool False))\<rparr>)"
    using assms(1) by (simp add: sched_inv_root)
  ultimately show ?thesis by (simp add: stop_no_trigger)
qed

text \<open>
  Claim C2.  The plugin \<^verbatim>\<open>weather\<close> is enabled with the schedule \<^verbatim>\<open>0 * * * *\<close>, and
  startup reconciliation has started its trigger.  The request
  \<^verbatim>\<open>PUT /api/plugins/weather/config\<close> with the body \<^verbatim>\<open>{"schedule": null}\<close> writes a
  descriptor that is still enabled and has no schedule, and the trigger stays active:
  the handler stops the job only when the merged descriptor is not enabled.
\<close>

theorem config_update_removing_schedule_keeps_trigger:
  "length (active_triggers weather_running ''weather'') = 1
   \<and> read_descriptor (plugin_root (snd (update_config always_valid ''weather''
         [''schedule'' \<mapsto> JNull] weather_running))) ''weather''
       = Inr (hourly(''schedule'' \<mapsto> JNull))
   \<and> \<not> truthy ((hourly(''schedule'' \<mapsto> JNull)) ''schedule'')
   \<and> (hourly(''schedule'' \<mapsto> JNull)) ''enabled'' = Some (JBool True)
   \<and> length (active_triggers (snd (update_config always_valid ''weather''
         [''schedule'' \<mapsto> JNull] weather_running)) ''weather'') = 1"
  by (simp add: weather_running_def initializeScheduledJobs_def module_load_def weather_root_def
        hourly_def startScheduledJob_def stopScheduledJob_def cron_schedule_def always_valid_def
        update_config_def read_descriptor_def write_descriptor_def active_triggers_def Let_def)

section \<open>Running a plugin\<close>




section \<open>Installing a plugin\<close>

text \<open>
  Claim C9, as stated, fails: installing under the name of an existing plugin directory
  does not fail.  The plugin \<^verbatim>\<open>weather\<close> exists (and runs); the request answers 201.
\<close>

theorem install_over_existing_plugin_succeeds:
  "fst (install_plugin (Some ''https://example.org/w.git'') (Some ''weather'') weather_running)
     = Reply 201 [''success'' \<mapsto> JBool True, ''plugin'' \<mapsto> JStr ''weather'',
                  ''message'' \<mapsto> JStr ''Plugin installed successfully'']
   \<and> map_of (plugin_root weather_running) ''weather''
       = Some (Dir \<lparr>plugin_json = Descriptor hourly, files = {''index.js''}\<rparr>)"
  by (simp add: install_plugin_def single_segment_def mkdir_recursive_def weather_running_def
        initializeScheduledJobs_def module_load_def weather_root_def hourly_def startScheduledJob_def
        stopScheduledJob_def cron_schedule_def always_valid_def Let_def)

lemma map_of_write_descriptor:
  "map_of root p = Some (Dir d) \<Longrightarrow>
   map_of (write_descriptor root p c) p = Some (Dir (d\<lparr>plugin_json := Descriptor c\<rparr>))"
  by (simp add: write_descriptor_def update_conv')

lemma map_of_write_file:
  "map_of root p = Some (Dir d) \<Longrightarrow>
   map_of (write_file root p n) p = Some (Dir (d\<lparr>files := insert n (files d)\<rparr>))"
  by (simp add: write_file_def update_conv')

lemma mkdir_recursive_dir:
  "mkdir_recursive root nm = Inr root1 \<Longrightarrow> \<exists>d. map_of root1 nm = Some (Dir d)"
  by (auto simp: mkdir_recursive_def update_conv' split: option.splits entry.splits)

lemma install_reply:
  assumes "install_plugin source name s = (Reply code body, s')"
  shows "\<exists>src nm root1. source = Some src \<and> src \<noteq> [] \<and> name = Some nm \<and> single_segment nm
    \<and> mkdir_recursive (plugin_root s) nm = Inr root1
    \<and> code = 201
    \<and> s' = s\<lparr>plugin_root := write_file (write_descriptor root1 nm (pluginConfig src nm)) nm ''index.js''\<rparr>"
  using assms
  by (auto simp: install_plugin_def Let_def split: option.splits if_splits sum.splits)

lemma install_on_directory:
  assumes "src \<noteq> []" and "single_segment nm"
    and "mkdir_recursive (plugin_root s) nm = Inr root1"
  shows "install_plugin (Some src) (Some nm) s =
        (Reply 201 [''success'' \<mapsto> JBool True, ''plugin'' \<mapsto> JStr nm,
                    ''message'' \<mapsto> JStr ''Plugin installed successfully''],
         s\<lparr>plugin_root := write_file (write_descriptor root1 nm (pluginConfig src nm)) nm ''index.js''\<rparr>)"
  using assms by (auto simp: install_plugin_def single_segment_def Let_def)

text \<open>
  Claim C9, amended.  \<open>install\<close> answers 400 and changes nothing when the source or the
  name is absent or empty.  A name that collides with an existing plugin directory does
  not make it fail: for a source that is given and a name that is one path segment,
  \<open>install\<close> answers 201 when a plugin directory has the name, as it does when no entry
  has it.  Whenever \<open>install\<close> succeeds, its status is 201, the directory of that name
  holds the minimal descriptor, whose \<^verbatim>\<open>enabled\<close> is \<^verbatim>\<open>false\<close>, and the stub
  \<^verbatim>\<open>index.js\<close>, and the scheduler is not touched.
\<close>

theorem install_creates_disabled_plugin:
  "(source = None \<or> source = Some [] \<or> name = None \<or> name = Some [] \<longrightarrow>
      install_plugin source name s = (Failure 400 ''Source and name are required'', s))
   \<and> (\<forall>src nm. source = Some src \<and> src \<noteq> [] \<and> name = Some nm \<and> single_segment nm
         \<and> (map_of (plugin_root s) nm = None \<or> (\<exists>d0. map_of (plugin_root s) nm = Some (Dir d0))) \<longrightarrow>
        (\<exists>body s'. install_plugin source name s = (Reply 201 body, s')))
   \<and> (\<forall>code body s'. install_plugin source name s = (Reply code body, s') \<longrightarrow>
        code = 201
        \<and> (\<exists>src nm d. source = Some src \<and> name = Some nm
              \<and> map_of (plugin_root s') nm = Some (Dir d)
              \<and> plugin_json d = Descriptor (pluginConfig src nm)
              \<and> pluginConfig src nm ''enabled'' = Some (JBool False)
              \<and> ''index.js'' \<in> files d
              \<and> cron_tasks s' = cron_tasks s \<and> activeJobs s' = activeJobs s))"
proof (intro conjI allI impI)
  assume "source = None \<or> source = Some [] \<or> name = None \<or> name = Some []"
  then show "install_plugin source name s = (Failure 400 ''Source and name are required'', s)"
    by (auto simp: install_plugin_def split: option.splits)
next
  fix src nm
  assume a: "source = Some src \<and> src \<noteq> [] \<and> name = Some nm \<and> single_segment nm
         \<and> (map_of (plugin_root s) nm = None \<or> (\<exists>d0. map_of (plugin_root s) nm = Some (Dir d0)))"
  then have "\<exists>root1. mkdir_recursive (plugin_root s) nm = Inr root1"
    by (auto simp: mkdir_recursive_def)
  then obtain root1 where "mkdir_recursive (plugin_root s) nm = Inr root1" ..
  with a show "\<exists>body s'. install_plugin source name s = (Reply 201 body, s')"
    using install_on_directory [of src nm s root1] by simp
next
  fix code body s'
  assume r: "install_plugin source name s = (Reply code body, s')"
  from install_reply [OF r] obtain src nm root1 where
    src: "source = Some src" and nm: "name = Some nm"
    and mk: "mkdir_recursive (plugin_root s) nm = Inr root1"
    and code: "code = 201"
    and s': "s' = s\<lparr>plugin_root := write_file (write_descriptor root1 nm (pluginConfig src nm)) nm ''index.js''\<rparr>"
    by blast
  from code show "code = 201" .
  from mk obtain d0 where d0: "map_of root1 nm = Some (Dir d0)" using mkdir_recursive_dir by blast
  let ?d = "d0\<lparr>plugin_json := Descriptor (pluginConfig src nm), files := insert ''index.js'' (files d0)\<rparr>"
  have m: "map_of (plugin_root s') nm = Some (Dir ?d)"
    using map_of_write_file [OF map_of_write_descriptor [OF d0]] by (simp add: s')
  have e: "pluginConfig src nm ''enabled'' = Some (JBool False)"
    by (simp add: pluginConfig_def)
  show "\<exists>src nm d. source = Some src \<and> name = Some nm
              \<and> map_of (plugin_root s') nm = Some (Dir d)
              \<and> plugin_json d = Descriptor (pluginConfig src nm)
              \<and> pluginConfig src nm ''enabled'' = Some (JBool False)
              \<and> ''index.js'' \<in> files d
              \<and> cron_tasks s' = cron_tasks s \<and> activeJobs s' = activeJobs s"
    using src nm m e by (intro exI [of _ src] exI [of _ nm] exI [of _ ?d]) (simp add: s')
qed

theorem install_creates_disabled_plugin_witness:
  "single_segment ''notes'' \<and> map_of (plugin_root weather_running) ''notes'' = None
   \<and> single_segment ''weather''
   \<and> map_of (plugin_root weather_running) ''weather''
        = Some (Dir \<lparr>plugin_json = Descriptor hourly, files = {''index.js''}\<rparr>)
   \<and> (\<exists>body s' d. install_plugin (Some ''local'') (Some ''notes'') weather_running = (Reply 201 body, s')
        \<and> map_of (plugin_root s') ''notes'' = Some (Dir d)
        \<and> plugin_json d = Descriptor (pluginConfig ''local'' ''notes'')
        \<and> ''index.js'' \<in> files d)
   \<and> (\<exists>body s' d. install_plugin (Some ''local'') (Some ''weather'') weather_running = (Reply 201 body, s')
        \<and> map_of (plugin_root s') ''weather'' = Some (Dir d)
        \<and> plugin_json d = Descriptor (pluginConfig ''local'' ''weather'')
        \<and> pluginConfig ''local'' ''weather'' ''enabled'' = Some (JBool False)
        \<and> length (active_triggers s' ''weather'') = 1)
   \<and> install_plugin None (Some ''notes'') weather_running
        = (Failure 400 ''Source and name are required'', weather_running)"
proof -
  have root: "plugin_root weather_running = weather_root"
    by (simp add: weather_running_def initializeScheduledJobs_def module_load_def weather_root_def
          hourly_def startScheduledJob_def stopScheduledJob_def cron_schedule_def always_valid_def)
  have seg: "single_segment ''notes''" "single_segment ''weather''"
    by (simp_all add: single_segment_def)
  have a: "map_of (plugin_root weather_running) ''notes'' = None"
    and b: "map_of (plugin_root weather_running) ''weather''
        = Some (Dir \<lparr>plugin_json = Descriptor hourly, files = {''index.js''}\<rparr>)"
    by (simp_all add: root weather_root_def)
  have run: "length (active_triggers weather_running ''weather'') = 1"
    by (simp add: weather_running_def initializeScheduledJobs_def module_load_def weather_root_def
          hourly_def startScheduledJob_def stopScheduledJob_def cron_schedule_def always_valid_def
          active_triggers_def)
  note at_notes = install_creates_disabled_plugin [of "Some ''local''" "Some ''notes''" weather_running]
  note at_weather = install_creates_disabled_plugin [of "Some ''local''" "Some ''weather''" weather_running]
  have "\<exists>body s'. install_plugin (Some ''local'') (Some ''notes'') weather_running = (Reply 201 body, s')"
    using at_notes [THEN conjunct2, THEN conjunct1, rule_format, of "''local''" "''notes''"] seg(1) a
    by simp
  then obtain body1 s1 where
    i1: "install_plugin (Some ''local'') (Some ''notes'') weather_running = (Reply 201 body1, s1)"
    by blast
  from at_notes [THEN conjunct2, THEN conjunct2, rule_format, OF i1]
  obtain src1 nm1 d1 where "Some ''local'' = Some src1" "Some ''notes'' = Some nm1"
    "map_of (plugin_root s1) nm1 = Some (Dir d1)"
    "plugin_json d1 = Descriptor (pluginConfig src1 nm1)" "''index.js'' \<in> files d1"
    by blast
  then have "map_of (plugin_root s1) ''notes'' = Some (Dir d1)"
    "plugin_json d1 = Descriptor (pluginConfig ''local'' ''notes'')" "''index.js'' \<in> files d1"
    by simp_all
  with i1 have c: "\<exists>body s' d. install_plugin (Some ''local'') (Some ''notes'') weather_running = (Reply 201 body, s')
        \<and> map_of (plugin_root s') ''notes'' = Some (Dir d)
        \<and> plugin_json d = Descriptor (pluginConfig ''local'' ''notes'')
        \<and> ''index.js'' \<in> files d"
    by (intro exI [of _ body1] exI [of _ s1] exI [of _ d1]) simp
  have "\<exists>body s'. install_plugin (Some ''local'') (Some ''weather'') weather_running = (Reply 201 body, s')"
    using at_weather [THEN conjunct2, THEN conjunct1, rule_format, of "''local''" "''weather''"] seg(2) b
    by simp
  then obtain body2 s2 where
    i2: "install_plugin (Some ''local'') (Some ''weather'') weather_running = (Reply 201 body2, s2)"
    by blast
  from at_weather [THEN conjunct2, THEN conjunct2, rule_format, OF i2]
  obtain src2 nm2 d2 where "Some ''local'' = Some src2" "Some ''weather'' = Some nm2"
    "map_of (plugin_root s2) nm2 = Some (Dir d2)"
    "plugin_json d2 = Descriptor (pluginConfig src2 nm2)"
    "pluginConfig src2 nm2 ''enabled'' = Some (JBool False)"
    "cron_tasks s2 = cron_tasks weather_running"
    by blast
  then have d2: "map_of (plugin_root s2) ''weather'' = Some (Dir d2)"
    "plugin_json d2 = Descriptor (pluginConfig ''local'' ''weather'')"
    "pluginConfig ''local'' ''weather'' ''enabled'' = Some (JBool False)"
    and sched: "cron_tasks s2 = cron_tasks weather_running"
    by simp_all
  from sched run have "length (active_triggers s2 ''weather'') = 1"
    by (simp add: active_triggers_def)
  with i2 d2 have d: "\<exists>body s' d. install_plugin (Some ''local'') (Some ''weather'') weather_running = (Reply 201 body, s')
        \<and> map_of (plugin_root s') ''weather'' = Some (Dir d)
        \<and> plugin_json d = Descriptor (pluginConfig ''local'' ''weather'')
        \<and> pluginConfig ''local'' ''weather'' ''enabled'' = Some (JBool False)
        \<and> length (active_triggers s' ''weather'') = 1"
    by (intro exI [of _ body2] exI [of _ s2] exI [of _ d2]) simp
  from install_creates_disabled_plugin [of None "Some ''notes''" weather_running]
  have e: "install_plugin None (Some ''notes'') weather_running
        = (Failure 400 ''Source and name are required'', weather_running)"
    by simp
  from seg a b c d e show ?thesis by (intro conjI)
qed

section \<open>What the registry reports as enabled\<close>

lemma list_entries_enabled:
  "(file, Dir d) \<in> set root \<Longrightarrow> plugin_json d = Descriptor config \<Longrightarrow>
   \<exists>e \<in> set (list_entries root). e ''id'' = Some (JStr file) \<and>
      e ''enabled'' = Some (JBool (config ''enabled'' \<noteq> Some (JBool False)))"
proof (induction root rule: list_entries.induct)
  case 1
  then show ?case by simp
next
  case (2 file' e rest)
  show ?case
  proof (cases "(file, Dir d) = (file', e)")
    case True
    with 2 show ?thesis by (auto simp: plugin_entry_def)
  next
    case False
    with 2 have "(file, Dir d) \<in> set rest" by auto
    with 2 show ?thesis by (auto split: entry.splits descriptor_file.splits)
  qed
qed

lemma get_plugin_enabled:
  "map_of (plugin_root s) pluginId = Some (Dir d) \<Longrightarrow> plugin_json d = Descriptor config \<Longrightarrow>
   get_plugin pluginId s = Reply 200 body \<Longrightarrow>
   body ''enabled'' = Some (JBool (config ''enabled'' \<noteq> Some (JBool False)))"
  by (auto simp: get_plugin_def plugin_entry_def split: json.splits)

text \<open>
  Claim C10.  For a plugin directory whose descriptor file parses to \<open>config\<close>, the
  entry of the plugin in the reply of \<^verbatim>\<open>GET /api/plugins\<close> and the reply of
  \<^verbatim>\<open>GET /api/plugins/:id\<close> carry \<^verbatim>\<open>enabled\<close> as the boolean
  \<^verbatim>\<open>config.enabled !== false\<close>: it is \<^verbatim>\<open>true\<close> when the key is missing or holds
  anything but the boolean \<^verbatim>\<open>false\<close>, and \<^verbatim>\<open>false\<close> only for an explicit
  \<^verbatim>\<open>enabled: false\<close>.
\<close>

theorem registry_reports_enabled_unless_explicitly_false:
  "((file, Dir d) \<in> set (plugin_root s) \<and> plugin_json d = Descriptor config \<longrightarrow>
      (\<exists>plugins. list_plugins s = Reply 200 plugins \<and>
        (\<exists>e \<in> set plugins. e ''id'' = Some (JStr file) \<and>
           e ''enabled'' = Some (JBool (config ''enabled'' \<noteq> Some (JBool False))))))
   \<and> (map_of (plugin_root s) file = Some (Dir d) \<and> plugin_json d = Descriptor config \<and>
        get_plugin file s = Reply 200 body \<longrightarrow>
        body ''enabled'' = Some (JBool (config ''enabled'' \<noteq> Some (JBool False))))
   \<and> (config ''enabled'' = None \<longrightarrow> JBool (config ''enabled'' \<noteq> Some (JBool False)) = JBool True)"
  using list_entries_enabled get_plugin_enabled
  by (auto simp: list_plugins_def)

theorem registry_reports_enabled_unless_explicitly_false_witness:
  "(''notes'', Dir \<lparr>plugin_json = Descriptor handwritten, files = {}\<rparr>) \<in> set (plugin_root notes_server)
   \<and> handwritten ''enabled'' = None
   \<and> (\<exists>plugins. list_plugins notes_server = Reply 200 plugins \<and>
        (\<exists>e \<in> set plugins. e ''id'' = Some (JStr ''notes'') \<and> e ''enabled'' = Some (JBool True)))
   \<and> (\<exists>body. get_plugin ''notes'' notes_server = Reply 200 body \<and> body ''enabled'' = Some (JBool True))"
proof -
  let ?d = "\<lparr>plugin_json = Descriptor handwritten, files = {}\<rparr>"
  have a: "(''notes'', Dir ?d) \<in> set (plugin_root notes_server)"
    and b: "map_of (plugin_root notes_server) ''notes'' = Some (Dir ?d)"
    by (simp_all add: notes_server_def module_load_def)
  have n: "handwritten ''enabled'' = None" by (simp add: handwritten_def)
  have g: "get_plugin ''notes'' notes_server
      = Reply 200 (plugin_entry ''notes'' handwritten ++
          [''hasMainFile'' \<mapsto> JBool False, ''mainFile'' \<mapsto> JStr ''index.js''])"
    by (simp add: get_plugin_def b or_default_def handwritten_def file_exists_def)
  note main = registry_reports_enabled_unless_explicitly_false
      [of "''notes''" ?d notes_server handwritten
        "plugin_entry ''notes'' handwritten ++
          [''hasMainFile'' \<mapsto> JBool False, ''mainFile'' \<mapsto> JStr ''index.js'']"]
  from main a n have l: "\<exists>plugins. list_plugins notes_server = Reply 200 plugins \<and>
        (\<exists>e \<in> set plugins. e ''id'' = Some (JStr ''notes'') \<and> e ''enabled'' = Some (JBool True))"
    by simp
  from main b g n have "(plugin_entry ''notes'' handwritten ++
          [''hasMainFile'' \<mapsto> JBool False, ''mainFile'' \<mapsto> JStr ''index.js'']) ''enabled'' = Some (JBool True)"
    by simp
  with g have "\<exists>body. get_plugin ''notes'' notes_server = Reply 200 body \<and> body ''enabled'' = Some (JBool True)"
    by (intro exI [of _ "plugin_entry ''notes'' handwritten ++
          [''hasMainFile'' \<mapsto> JBool False, ''mainFile'' \<mapsto> JStr ''index.js'']"] conjI)
  with a n l show ?thesis by (intro conjI)
qed

section \<open>Creating an event\<close>

text \<open>
  Claim C3.  When the payload fails the validator, \<open>createEvent\<close> is rejected with
  the validation error before any statement runs: the table is the same afterwards, and
  so is the total that \<open>getStats\<close> counts.
\<close>

theorem create_invalid_writes_nothing:
  "\<not> validate eventData \<Longrightarrow>
   createEvent validate uuid now eventData db = (Inl InvalidEvent, db)
   \<and> getStats_total (snd (createEvent validate uuid now eventData db)) = getStats_total db"
  by (simp add: createEvent_def)

theorem create_invalid_writes_nothing_witness:
  "\<not> schema_validate any_date untitled_payload
   \<and> createEvent (schema_validate any_date) ''id-1'' ''2024-01-02T00:00:00.000Z'' untitled_payload []
       = (Inl InvalidEvent, [])
   \<and> getStats_total (snd (createEvent (schema_validate any_date) ''id-1''
         ''2024-01-02T00:00:00.000Z'' untitled_payload [])) = getStats_total []"
proof -
  have inv: "\<not> schema_validate any_date untitled_payload"
    by (simp add: schema_validate_def untitled_payload_def)
  from create_invalid_writes_nothing
      [of "schema_validate any_date" untitled_payload "''id-1''" "''2024-01-02T00:00:00.000Z''" "[]"] inv
  show ?thesis by simp
qed

section \<open>The example store\<close>

lemma gym_store_rows: "gym_store = [gym_row]"
  by code_simp

lemma gym_row_ok: "row_ok gym_row"
  by code_simp

lemma select_gym: "select_by_id ''e1'' gym_store = Some gym_row"
  by code_simp

lemma select_nope: "select_by_id ''nope'' gym_store = None"
  by code_simp

lemma parse_gym:
  \<open>json_parse ''{"reps":12}'' = Some (JObj [(''reps'', JNum 12)])\<close>
  \<open>json_parse ''["gymnastics"]'' = Some (JArr [JStr ''gymnastics''])\<close>
  \<open>json_parse ''[]'' = Some (JArr [])\<close>
  \<open>json_parse ''{}'' = Some (JObj [])\<close>
  by code_simp+

lemma deserialize_gym:
  "deserialize gym_row = Inr (row_obj gym_row ++
     [''metadata'' \<mapsto> JObj [(''reps'', JNum 12)], ''linked_uris'' \<mapsto> JArr [],
      ''tags'' \<mapsto> JArr [JStr ''gymnastics''], ''location'' \<mapsto> JNull])"
  by (simp add: deserialize_def parse_column_def parse_location_def gym_row_def parse_gym)

lemma getEvent_gym:
  "getEvent ''e1'' gym_store = Inr (Some (row_obj gym_row ++
     [''metadata'' \<mapsto> JObj [(''reps'', JNum 12)], ''linked_uris'' \<mapsto> JArr [],
      ''tags'' \<mapsto> JArr [JStr ''gymnastics''], ''location'' \<mapsto> JNull]))"
  by (simp add: getEvent_def select_gym deserialize_gym)

lemma update_gym_ok:
  "\<exists>ev db'. updateEvent (schema_validate any_date) ''2024-03-06T08:00:00.000Z'' ''e1''
        [''title'' \<mapsto> JStr ''Evening training'', ''created_at'' \<mapsto> JStr ''1999-01-01T00:00:00.000Z'']
        gym_store = (Inr ev, db')"
proof -
  let ?ue = "(row_obj gym_row ++
     [''metadata'' \<mapsto> JObj [(''reps'', JNum 12)], ''linked_uris'' \<mapsto> JArr [],
      ''tags'' \<mapsto> JArr [JStr ''gymnastics''], ''location'' \<mapsto> JNull])
     ++ [''title'' \<mapsto> JStr ''Evening training'', ''created_at'' \<mapsto> JStr ''1999-01-01T00:00:00.000Z'']
     ++ [''updated_at'' \<mapsto> JStr ''2024-03-06T08:00:00.000Z'']"
  have v: "schema_validate any_date ?ue"
    by (simp add: schema_validate_def any_date_def row_obj_def gym_row_def of_text_def of_int_col_def)
  have b: "bindable_update (serialize ?ue)"
    by (simp add: bindable_update_def updated_text_columns_def serialize_def serialize_location_def
          row_obj_def gym_row_def of_text_def of_int_col_def)
  have n: "not_null_ok (set_columns (serialize ?ue) gym_row)"
    by (simp add: not_null_ok_def set_columns_def serialize_def row_obj_def gym_row_def of_text_def)
  have "\<exists>db'. update_row ''e1'' (serialize ?ue) gym_store = Inr db'"
    using b n by (simp add: update_row_def gym_store_rows)
  then obtain db' where "update_row ''e1'' (serialize ?ue) gym_store = Inr db'" ..
  then have "updateEvent (schema_validate any_date) ''2024-03-06T08:00:00.000Z'' ''e1''
        [''title'' \<mapsto> JStr ''Evening training'', ''created_at'' \<mapsto> JStr ''1999-01-01T00:00:00.000Z'']
        gym_store = (Inr ?ue, db')"
    using v by (simp add: updateEvent_def getEvent_gym Let_def)
  then show ?thesis by blast
qed

section \<open>Updating an event\<close>

lemma getEvent_absent: "getEvent ident db = Inr None \<longleftrightarrow> select_by_id ident db = None"
  by (auto simp: getEvent_def split: option.splits sum.splits)

text \<open>
  Claim C1.  \<open>updateEvent\<close> on an id that is not stored is rejected with the not-found
  error and the table is unchanged.  For a stored id the validator is applied to the
  merged record (the stored event, overridden by the patch, with a fresh
  \<^verbatim>\<open>updated_at\<close>): when the merged record is invalid the update is rejected and the
  table is unchanged; an update that succeeds returns a merged record that passed the
  validator; and every update that does not succeed (rejected for a missing id, an
  invalid record or a constraint of the table, or never settled because the stored row
  cannot be parsed) leaves the table as it was.
\<close>

theorem update_validates_merged_record_atomically:
  "(getEvent ident db = Inr None \<longrightarrow>
      updateEvent validate now ident updates db = (Inl (EventNotFound ident), db))
   \<and> (\<forall>event. getEvent ident db = Inr (Some event)
          \<and> \<not> validate (event ++ updates ++ [''updated_at'' \<mapsto> JStr now]) \<longrightarrow>
        updateEvent validate now ident updates db = (Inl InvalidEvent, db))
   \<and> (\<forall>ev db'. updateEvent validate now ident updates db = (Inr ev, db') \<longrightarrow>
        (\<exists>event. getEvent ident db = Inr (Some event)
           \<and> ev = event ++ updates ++ [''updated_at'' \<mapsto> JStr now] \<and> validate ev))
   \<and> (\<forall>e db'. updateEvent validate now ident updates db = (Inl e, db') \<and> e \<noteq> Unmodelled \<longrightarrow>
        db' = db)"
  by (auto simp: updateEvent_def Let_def split: sum.splits option.splits if_splits)

theorem update_validates_merged_record_atomically_witness:
  "getEvent ''nope'' gym_store = Inr None
   \<and> updateEvent (schema_validate any_date) ''2024-03-06T08:00:00.000Z'' ''nope''
        [''title'' \<mapsto> JStr ''Evening training''] gym_store = (Inl (EventNotFound ''nope''), gym_store)
   \<and> updateEvent (schema_validate any_date) ''2024-03-06T08:00:00.000Z'' ''e1''
        [''title'' \<mapsto> JNum 5] gym_store = (Inl InvalidEvent, gym_store)
   \<and> (\<exists>ev db'. updateEvent (schema_validate any_date) ''2024-03-06T08:00:00.000Z'' ''e1''
        [''title'' \<mapsto> JStr ''Evening training'', ''created_at'' \<mapsto> JStr ''1999-01-01T00:00:00.000Z'']
        gym_store = (Inr ev, db') \<and> schema_validate any_date ev)"
proof -
  have a: "getEvent ''nope'' gym_store = Inr None"
    using select_nope by (simp add: getEvent_absent)
  have b: "\<not> schema_validate any_date
      ((row_obj gym_row ++
         [''metadata'' \<mapsto> JObj [(''reps'', JNum 12)], ''linked_uris'' \<mapsto> JArr [],
          ''tags'' \<mapsto> JArr [JStr ''gymnastics''], ''location'' \<mapsto> JNull])
        ++ [''title'' \<mapsto> JNum 5] ++ [''updated_at'' \<mapsto> JStr ''2024-03-06T08:00:00.000Z''])"
    by (simp add: schema_validate_def)
  from update_validates_merged_record_atomically
        [of "''nope''" gym_store "schema_validate any_date" "''2024-03-06T08:00:00.000Z''"
            "[''title'' \<mapsto> JStr ''Evening training'']"] a
  have c: "updateEvent (schema_validate any_date) ''2024-03-06T08:00:00.000Z'' ''nope''
        [''title'' \<mapsto> JStr ''Evening training''] gym_store = (Inl (EventNotFound ''nope''), gym_store)"
    by blast
  from update_validates_merged_record_atomically
        [of "''e1''" gym_store "schema_validate any_date" "''2024-03-06T08:00:00.000Z''"
            "[''title'' \<mapsto> JNum 5]"] getEvent_gym b
  have d: "updateEvent (schema_validate any_date) ''2024-03-06T08:00:00.000Z'' ''e1''
        [''title'' \<mapsto> JNum 5] gym_store = (Inl InvalidEvent, gym_store)"
    by blast
  obtain ev db' where u: "updateEvent (schema_validate any_date) ''2024-03-06T08:00:00.000Z'' ''e1''
        [''title'' \<mapsto> JStr ''Evening training'', ''created_at'' \<mapsto> JStr ''1999-01-01T00:00:00.000Z'']
        gym_store = (Inr ev, db')"
    using update_gym_ok by blast
  from update_validates_merged_record_atomically
        [of "''e1''" gym_store "schema_validate any_date" "''2024-03-06T08:00:00.000Z''"
            "[''title'' \<mapsto> JStr ''Evening training'', ''created_at'' \<mapsto> JStr ''1999-01-01T00:00:00.000Z'']"] u
  have "schema_validate any_date ev" by blast
  with u have e: "\<exists>ev db'. updateEvent (schema_validate any_date) ''2024-03-06T08:00:00.000Z'' ''e1''
        [''title'' \<mapsto> JStr ''Evening training'', ''created_at'' \<mapsto> JStr ''1999-01-01T00:00:00.000Z'']
        gym_store = (Inr ev, db') \<and> schema_validate any_date ev"
    by blast
  from a c d e show ?thesis by (intro conjI)
qed

lemma find_map_same:
  "(\<And>x. P (f x) = P x) \<Longrightarrow> find P (map f xs) = map_option f (find P xs)"
  by (induction xs) auto

lemma select_after_update:
  "update_row ident e db = Inr db' \<Longrightarrow> select_by_id ident db = Some r \<Longrightarrow>
   select_by_id ident db' = Some (set_columns e r)"
proof -
  assume u: "update_row ident e db = Inr db'" and s: "select_by_id ident db = Some r"
  let ?f = "\<lambda>r. if r_id r = Some ident then set_columns e r else r"
  from u have db': "db' = map ?f db" by (simp add: update_row_def split: if_splits)
  have "\<And>x. (r_id (?f x) = Some ident) = (r_id x = Some ident)" by (simp add: set_columns_def)
  then have "find (\<lambda>r. r_id r = Some ident) (map ?f db) = map_option ?f (find (\<lambda>r. r_id r = Some ident) db)"
    by (rule find_map_same)
  moreover from s have "r_id r = Some ident" by (auto simp: select_by_id_def find_Some_iff)
  ultimately show ?thesis using s db' by (simp add: select_by_id_def)
qed

lemma select_other_after_update:
  "update_row ident e db = Inr db' \<Longrightarrow> other \<noteq> ident \<Longrightarrow>
   select_by_id other db' = select_by_id other db"
proof -
  assume u: "update_row ident e db = Inr db'" and o: "other \<noteq> ident"
  let ?f = "\<lambda>r. if r_id r = Some ident then set_columns e r else r"
  from u have db': "db' = map ?f db" by (simp add: update_row_def split: if_splits)
  have "\<And>x. (r_id (?f x) = Some other) = (r_id x = Some other)" by (simp add: set_columns_def)
  then have "find (\<lambda>r. r_id r = Some other) (map ?f db) = map_option ?f (find (\<lambda>r. r_id r = Some other) db)"
    by (rule find_map_same)
  moreover have "\<And>x. find (\<lambda>r. r_id r = Some other) db = Some x \<Longrightarrow> ?f x = x"
    using o by (auto simp: find_Some_iff)
  ultimately show ?thesis using db'
    by (cases "find (\<lambda>r. r_id r = Some other) db") (simp_all add: select_by_id_def)
qed

lemma length_after_update: "update_row ident e db = Inr db' \<Longrightarrow> length db' = length db"
  by (auto simp: update_row_def split: if_splits)

lemma json_parse_Nil: "json_parse [] = None"
  by (simp add: json_parse_def)

lemma col_ok_parse:
  "col_ok c \<Longrightarrow> \<exists>t v. c = Some t \<and> t \<noteq> [] \<and> json_parse t = Some v \<and> truthy (Some v) \<and> stringify v = t"
  by (cases c) (auto simp: col_ok_def json_parse_Nil split: option.splits)

lemma serialize_kept_column:
  "col_ok c \<Longrightarrow> parse_column c d = Some v \<Longrightarrow> to_text (Some (JStr (stringify (or_default (Some v) x)))) = c"
  by (auto dest!: col_ok_parse simp: parse_column_def or_default_def)

lemma serialize_kept_location:
  "c = None \<or> col_ok c \<Longrightarrow> parse_location c = Some v \<Longrightarrow> to_text (Some (serialize_location (Some v))) = c"
  by (auto dest!: col_ok_parse simp: parse_location_def serialize_location_def)

lemma to_text_of_text: "to_text (Some (of_text c)) = c"
  by (cases c) (simp_all add: of_text_def)

lemma to_int_of_int_col: "to_int (Some (of_int_col c)) = c"
  by (cases c) (simp_all add: of_int_col_def)

lemma update_success:
  "updateEvent validate now ident updates db = (Inr ev, db') \<Longrightarrow>
   \<exists>event. getEvent ident db = Inr (Some event)
     \<and> ev = event ++ updates ++ [''updated_at'' \<mapsto> JStr now]
     \<and> update_row ident (serialize ev) db = Inr db'"
  by (auto simp: updateEvent_def Let_def split: sum.splits option.splits if_splits)

lemma getEvent_deserialize:
  "getEvent ident db = Inr (Some event) \<Longrightarrow> select_by_id ident db = Some r \<Longrightarrow>
   \<exists>m l t loc. parse_column (r_metadata r) ''{}'' = Some m \<and> parse_column (r_linked_uris r) ''[]'' = Some l
     \<and> parse_column (r_tags r) ''[]'' = Some t \<and> parse_location (r_location r) = Some loc
     \<and> event = row_obj r ++ [''metadata'' \<mapsto> m, ''linked_uris'' \<mapsto> l, ''tags'' \<mapsto> t, ''location'' \<mapsto> loc]"
  by (auto simp: getEvent_def deserialize_def split: sum.splits option.splits)

text \<open>
  Claim C5.  After a successful \<open>updateEvent\<close> of a stored row (whose compound columns
  hold what the store serialised), the row of that id keeps its \<^verbatim>\<open>id\<close> and its
  \<^verbatim>\<open>created_at\<close>, whatever the patch holds; its \<^verbatim>\<open>updated_at\<close> is the time of the
  update; every column whose name is not a key of the patch keeps its value; and no other
  row changes.
\<close>

theorem update_keeps_created_at_and_untouched_fields:
  assumes upd: "updateEvent validate now ident updates db = (Inr ev, db')"
    and sel: "select_by_id ident db = Some r"
    and ok: "row_ok r"
  shows "\<exists>r'. select_by_id ident db' = Some r'
    \<and> r_id r' = r_id r
    \<and> r_created_at r' = r_created_at r
    \<and> r_updated_at r' = Some now
    \<and> (''timestamp'' \<notin> dom updates \<longrightarrow> r_timestamp r' = r_timestamp r)
    \<and> (''source'' \<notin> dom updates \<longrightarrow> r_source r' = r_source r)
    \<and> (''type'' \<notin> dom updates \<longrightarrow> r_type r' = r_type r)
    \<and> (''title'' \<notin> dom updates \<longrightarrow> r_title r' = r_title r)
    \<and> (''metadata'' \<notin> dom updates \<longrightarrow> r_metadata r' = r_metadata r)
    \<and> (''linked_uris'' \<notin> dom updates \<longrightarrow> r_linked_uris r' = r_linked_uris r)
    \<and> (''tags'' \<notin> dom updates \<longrightarrow> r_tags r' = r_tags r)
    \<and> (''mood'' \<notin> dom updates \<longrightarrow> r_mood r' = r_mood r)
    \<and> (''location'' \<notin> dom updates \<longrightarrow> r_location r' = r_location r)
    \<and> (''duration'' \<notin> dom updates \<longrightarrow> r_duration r' = r_duration r)
    \<and> length db' = length db
    \<and> (\<forall>other. other \<noteq> ident \<longrightarrow> select_by_id other db' = select_by_id other db)"
proof -
  from update_success [OF upd] obtain event where
    ge: "getEvent ident db = Inr (Some event)"
    and ev: "ev = event ++ updates ++ [''updated_at'' \<mapsto> JStr now]"
    and ur: "update_row ident (serialize ev) db = Inr db'" by blast
  from getEvent_deserialize [OF ge sel] obtain m l t loc where
    pm: "parse_column (r_metadata r) ''{}'' = Some m"
    and pl: "parse_column (r_linked_uris r) ''[]'' = Some l"
    and pt: "parse_column (r_tags r) ''[]'' = Some t"
    and ploc: "parse_location (r_location r) = Some loc"
    and event: "event = row_obj r ++ [''metadata'' \<mapsto> m, ''linked_uris'' \<mapsto> l, ''tags'' \<mapsto> t, ''location'' \<mapsto> loc]"
    by blast
  let ?r' = "set_columns (serialize ev) r"
  have s': "select_by_id ident db' = Some ?r'" using ur sel by (rule select_after_update)
  have look: "\<And>k. k \<notin> dom updates \<Longrightarrow> k \<noteq> ''updated_at'' \<Longrightarrow> ev k = event k"
    by (simp add: ev map_add_dom_app_simps)
  have c1: "r_id ?r' = r_id r" "r_created_at ?r' = r_created_at r"
    by (simp_all add: set_columns_def)
  have c2: "r_updated_at ?r' = Some now"
    by (simp add: set_columns_def serialize_def ev)
  have t1: "''timestamp'' \<notin> dom updates \<Longrightarrow> r_timestamp ?r' = r_timestamp r"
    using look [of "''timestamp''"]
    by (simp add: set_columns_def serialize_def event row_obj_def to_text_of_text)
  have t2: "''source'' \<notin> dom updates \<Longrightarrow> r_source ?r' = r_source r"
    using look [of "''source''"]
    by (simp add: set_columns_def serialize_def event row_obj_def to_text_of_text)
  have t3: "''type'' \<notin> dom updates \<Longrightarrow> r_type ?r' = r_type r"
    using look [of "''type''"]
    by (simp add: set_columns_def serialize_def event row_obj_def to_text_of_text)
  have t4: "''title'' \<notin> dom updates \<Longrightarrow> r_title ?r' = r_title r"
    using look [of "''title''"]
    by (simp add: set_columns_def serialize_def event row_obj_def to_text_of_text)
  have t5: "''mood'' \<notin> dom updates \<Longrightarrow> r_mood ?r' = r_mood r"
    using look [of "''mood''"]
    by (simp add: set_columns_def serialize_def event row_obj_def to_int_of_int_col)
  have t6: "''duration'' \<notin> dom updates \<Longrightarrow> r_duration ?r' = r_duration r"
    using look [of "''duration''"]
    by (simp add: set_columns_def serialize_def event row_obj_def to_int_of_int_col)
  have k1: "''metadata'' \<notin> dom updates \<Longrightarrow> r_metadata ?r' = r_metadata r"
    using look [of "''metadata''"] serialize_kept_column [OF _ pm] ok
    by (simp add: set_columns_def serialize_def event row_ok_def)
  have k2: "''linked_uris'' \<notin> dom updates \<Longrightarrow> r_linked_uris ?r' = r_linked_uris r"
    using look [of "''linked_uris''"] serialize_kept_column [OF _ pl] ok
    by (simp add: set_columns_def serialize_def event row_ok_def)
  have k3: "''tags'' \<notin> dom updates \<Longrightarrow> r_tags ?r' = r_tags r"
    using look [of "''tags''"] serialize_kept_column [OF _ pt] ok
    by (simp add: set_columns_def serialize_def event row_ok_def)
  have k4: "''location'' \<notin> dom updates \<Longrightarrow> r_location ?r' = r_location r"
    using look [of "''location''"] serialize_kept_location [OF _ ploc] ok
    by (simp add: set_columns_def serialize_def event row_ok_def)
  have len: "length db' = length db" using ur by (rule length_after_update)
  have oth: "\<forall>other. other \<noteq> ident \<longrightarrow> select_by_id other db' = select_by_id other db"
    using select_other_after_update [OF ur] by blast
  show ?thesis
    using s' c1 c2 t1 t2 t3 t4 t5 t6 k1 k2 k3 k4 len oth by (intro exI [of _ ?r']) simp
qed

theorem update_keeps_created_at_and_untouched_fields_witness:
  "select_by_id ''e1'' gym_store = Some gym_row \<and> row_ok gym_row
   \<and> (\<exists>r'. select_by_id ''e1'' (snd (updateEvent (schema_validate any_date) ''2024-03-06T08:00:00.000Z'' ''e1''
              [''title'' \<mapsto> JStr ''Evening training'', ''created_at'' \<mapsto> JStr ''1999-01-01T00:00:00.000Z'']
              gym_store)) = Some r'
        \<and> r_created_at r' = Some ''2024-03-05T19:00:00.000Z''
        \<and> r_updated_at r' = Some ''2024-03-06T08:00:00.000Z''
        \<and> r_tags r' = r_tags gym_row \<and> r_mood r' = Some 7)"
proof -
  obtain ev db' where u: "updateEvent (schema_validate any_date) ''2024-03-06T08:00:00.000Z'' ''e1''
        [''title'' \<mapsto> JStr ''Evening training'', ''created_at'' \<mapsto> JStr ''1999-01-01T00:00:00.000Z'']
        gym_store = (Inr ev, db')"
    using update_gym_ok by blast
  from update_keeps_created_at_and_untouched_fields [OF u select_gym gym_row_ok]
  obtain r' where "select_by_id ''e1'' db' = Some r'"
     "r_created_at r' = r_created_at gym_row" "r_updated_at r' = Some ''2024-03-06T08:00:00.000Z''"
     "r_tags r' = r_tags gym_row" "r_mood r' = r_mood gym_row"
    by auto
  then have "\<exists>r'. select_by_id ''e1'' db' = Some r'
        \<and> r_created_at r' = Some ''2024-03-05T19:00:00.000Z''
        \<and> r_updated_at r' = Some ''2024-03-06T08:00:00.000Z''
        \<and> r_tags r' = r_tags gym_row \<and> r_mood r' = Some 7"
    by (intro exI [of _ r']) (simp add: gym_row_def)
  with u select_gym gym_row_ok show ?thesis by simp
qed

section \<open>Creating an event and reading it back\<close>

lemma stringify_nonempty: "stringify v \<noteq> []"
  using stringify_head [of v] by auto



lemma insert_row_success:
  "insert_row e db = Inr db' \<Longrightarrow>
   db' = db @ [bound_row e] \<and> bindable e \<and> not_null_ok (bound_row e)
   \<and> (r_id (bound_row e) \<noteq> None \<longrightarrow> r_id (bound_row e) \<notin> set (map r_id db))"
  by (auto simp: insert_row_def split: if_splits)








lemma serialize_location_cases:
  "serialize_location x = (if truthy x then JStr (stringify (or_default x JNull)) else JNull)"
  by (cases x) (simp_all add: serialize_location_def or_default_def)


lemma create_success:
  assumes "createEvent validate uuid now eventData db = (Inr ev, db')"
  shows "\<exists>m l t loc.
      insert_row (serialize (eventData
           (''id'' \<mapsto> or_default (eventData ''id'') (JStr uuid),
            ''created_at'' \<mapsto> or_default (eventData ''created_at'') (JStr now),
            ''updated_at'' \<mapsto> JStr now))) db = Inr db'
    \<and> ev = eventData
           (''id'' \<mapsto> or_default (eventData ''id'') (JStr uuid),
            ''created_at'' \<mapsto> or_default (eventData ''created_at'') (JStr now),
            ''updated_at'' \<mapsto> JStr now,
            ''metadata'' \<mapsto> m, ''linked_uris'' \<mapsto> l, ''tags'' \<mapsto> t, ''location'' \<mapsto> loc)
    \<and> parse_field (Some (JStr (stringify (or_default (eventData ''metadata'') (JObj []))))) = Some m
    \<and> parse_field (Some (JStr (stringify (or_default (eventData ''linked_uris'') (JArr []))))) = Some l
    \<and> parse_field (Some (JStr (stringify (or_default (eventData ''tags'') (JArr []))))) = Some t
    \<and> (if truthy (eventData ''location'')
        then parse_field (Some (JStr (stringify (or_default (eventData ''location'') JNull)))) = Some loc
        else loc = JNull)"
  using assms
  by (auto simp: createEvent_def Let_def serialize_def serialize_location_cases stringify_nonempty
        split: if_splits sum.splits option.splits prod.splits)















subsection \<open>Every row the store writes is well formed\<close>

lemma col_ok_stringify: "wf_json v \<Longrightarrow> truthy (Some v) \<Longrightarrow> col_ok (Some (stringify v))"
  by (simp add: col_ok_def json_roundtrip)

lemma truthy_or_default: "truthy (Some d) \<Longrightarrow> truthy (Some (or_default x d))"
  by (cases x) (simp_all add: or_default_def)

lemma row_ok_serialized:
  assumes "compound_wf e"
  shows "row_ok (bound_row (serialize e))" "row_ok (set_columns (serialize e) r)"
proof -
  from assms have wf: "wf_json (or_default (e ''metadata'') (JObj []))"
    "wf_json (or_default (e ''linked_uris'') (JArr []))"
    "wf_json (or_default (e ''tags'') (JArr []))" "wf_json (or_default (e ''location'') JNull)"
    by (simp_all add: compound_wf_def)
  have m: "col_ok (Some (stringify (or_default (e ''metadata'') (JObj []))))"
    using wf(1) by (intro col_ok_stringify truthy_or_default) simp_all
  have l: "col_ok (Some (stringify (or_default (e ''linked_uris'') (JArr []))))"
    using wf(2) by (intro col_ok_stringify truthy_or_default) simp_all
  have t: "col_ok (Some (stringify (or_default (e ''tags'') (JArr []))))"
    using wf(3) by (intro col_ok_stringify truthy_or_default) simp_all
  have loc: "to_text (Some (serialize_location (e ''location''))) = None
      \<or> col_ok (to_text (Some (serialize_location (e ''location''))))"
  proof (cases "truthy (e ''location'')")
    case True
    then have "truthy (Some (or_default (e ''location'') JNull))"
      by (cases "e ''location''") (simp_all add: or_default_def)
    with wf(4) True show ?thesis by (simp add: serialize_location_cases col_ok_stringify)
  next
    case False
    then show ?thesis by (simp add: serialize_location_cases)
  qed
  show "row_ok (bound_row (serialize e))"
    using m l t loc by (simp add: row_ok_def bound_row_def serialize_def)
  show "row_ok (set_columns (serialize e) r)"
    using m l t loc by (simp add: row_ok_def set_columns_def serialize_def)
qed

lemma compound_wf_upd:
  "k \<noteq> ''metadata'' \<Longrightarrow> k \<noteq> ''linked_uris'' \<Longrightarrow> k \<noteq> ''tags'' \<Longrightarrow> k \<noteq> ''location'' \<Longrightarrow>
   compound_wf (e(k \<mapsto> v)) = compound_wf e"
  by (simp add: compound_wf_def)

lemma createEvent_keeps_rows_ok:
  assumes "createEvent validate uuid now eventData db = (Inr ev, db')"
    and "compound_wf eventData" and "list_all row_ok db"
  shows "list_all row_ok db'"
proof -
  let ?event = "eventData(''id'' \<mapsto> or_default (eventData ''id'') (JStr uuid),
            ''created_at'' \<mapsto> or_default (eventData ''created_at'') (JStr now),
            ''updated_at'' \<mapsto> JStr now)"
  from create_success [OF assms(1)] have "insert_row (serialize ?event) db = Inr db'" by blast
  then have db': "db' = db @ [bound_row (serialize ?event)]" using insert_row_success by blast
  have "compound_wf ?event" using assms(2) by (simp add: compound_wf_upd)
  then have "row_ok (bound_row (serialize ?event))" by (rule row_ok_serialized)
  with assms(3) show ?thesis by (simp add: db')
qed

lemma updateEvent_keeps_rows_ok:
  assumes "updateEvent validate now ident updates db = (Inr ev, db')"
    and "compound_wf ev" and "list_all row_ok db"
  shows "list_all row_ok db'"
proof -
  from update_success [OF assms(1)] have "update_row ident (serialize ev) db = Inr db'" by blast
  then have "db' = map (\<lambda>r. if r_id r = Some ident then set_columns (serialize ev) r else r) db"
    by (simp add: update_row_def split: if_splits)
  with assms(3) row_ok_serialized(2) [OF assms(2)] show ?thesis
    by (auto simp: list_all_iff)
qed


section \<open>Listing events\<close>

subsection \<open>The sort of the engine\<close>














subsection \<open>The rows selected\<close>





subsection \<open>The events returned\<close>





subsection \<open>What the pattern of a tag matches\<close>

lemma like_percent: "sqlite_like ''%'' t"
  by (induction t) simp_all

lemma like_lead: "sqlite_like ps t \<Longrightarrow> sqlite_like (CHR ''%'' # ps) t"
  by simp

lemma like_skip: "sqlite_like (CHR ''%'' # q) t \<Longrightarrow> sqlite_like (CHR ''%'' # q) (c # t)"
  by simp

lemma like_run: "sqlite_like ps t \<Longrightarrow> sqlite_like (CHR ''%'' # ps) (u @ t)"
  by (induction u) (simp_all del: sqlite_like.simps add: like_lead like_skip)

lemma like_matches_complete: "like_matches p t \<Longrightarrow> sqlite_like p t"
proof (induction rule: like_matches.induct)
  case empty
  show ?case by simp
next
  case (run ps t u)
  then show ?case by (simp only: like_run)
next
  case (one p c ps t)
  then show ?case by (subst sqlite_like.simps(2)) (simp del: sqlite_like.simps)
qed

lemma like_matches_percent:
  assumes "like_matches (CHR ''%'' # ps) t"
  shows "\<exists>u t'. t = u @ t' \<and> like_matches ps t'"
  using assms by cases blast+



lemma like_matches_sound: "sqlite_like p t \<Longrightarrow> like_matches p t"
proof (induction p t rule: sqlite_like.induct)
  case (1 t)
  then show ?case by (simp add: like_matches.empty)
next
  case (2 p ps t)
  show ?case
  proof (cases "p = CHR ''%''")
    case True
    have "sqlite_like (p # ps) t = (sqlite_like ps t \<or> (\<exists>c cs. t = c # cs \<and> sqlite_like (p # ps) cs))"
      using True by (subst sqlite_like.simps(2)) (simp del: sqlite_like.simps split: list.splits)
    with "2.prems"
    have "sqlite_like ps t \<or> (\<exists>c cs. t = c # cs \<and> sqlite_like (p # ps) cs)"
      by (simp del: sqlite_like.simps)
    then show ?thesis
    proof
      assume "sqlite_like ps t"
      with "2.IH"(1) True have "like_matches ps t" by simp
      then have "like_matches (CHR ''%'' # ps) ([] @ t)" by (rule like_matches.run)
      with True show ?thesis by simp
    next
      assume "\<exists>c cs. t = c # cs \<and> sqlite_like (p # ps) cs"
      then obtain c cs where t: "t = c # cs" and l: "sqlite_like (p # ps) cs" by blast
      from "2.IH"(2) [OF True t l] True have "like_matches (CHR ''%'' # ps) cs" by simp
      then obtain u t' where cs: "cs = u @ t'" and m: "like_matches ps t'"
        using like_matches_percent by blast
      from m have "like_matches (CHR ''%'' # ps) ((c # u) @ t')" by (rule like_matches.run)
      with True t cs show ?thesis by simp
    qed
  next
    case False
    have "sqlite_like (p # ps) t =
        (\<exists>c cs. t = c # cs \<and> (p = CHR ''_'' \<or> lower_ascii p = lower_ascii c) \<and> sqlite_like ps cs)"
      using False by (subst sqlite_like.simps(2)) (simp del: sqlite_like.simps split: list.splits)
    with "2.prems" obtain c cs where t: "t = c # cs"
      and m: "p = CHR ''_'' \<or> lower_ascii p = lower_ascii c" and l: "sqlite_like ps cs"
      by (auto simp del: sqlite_like.simps)
    from "2.IH"(3) [OF False t l] have "like_matches ps cs" .
    with False m show ?thesis unfolding t by (intro like_matches.one)
  qed
qed

lemma like_matches_iff: "like_matches p t \<longleftrightarrow> sqlite_like p t"
  using like_matches_sound like_matches_complete by blast











subsection \<open>The example store\<close>







end
